theory Spec2Isabelle
  imports Main
begin

section \<open>Document Update of the DynamoDB graph model (\<^verbatim>\<open>src/update.js\<close>)\<close>

text \<open>
  The module exports one function, \<^verbatim>\<open>create(options)\<close>, which validates its options and
  returns the update function \<^verbatim>\<open>doc => Promise\<close>. The update function reads the document,
  calls the driver once per recognised property and edge present in the document, joins
  the promises of these calls with \<^verbatim>\<open>Promise.all\<close> and resolves to a new object: the
  document merged over \<^verbatim>\<open>{id: node}\<close>, plus one \<^verbatim>\<open>@<type>\<close> entry per edge.

  The embedding makes explicit what the JavaScript leaves implicit:
  \<^item> objects touched by \<^verbatim>\<open>Object.assign\<close> live in a store (a list of objects, an
    address being an index), so that sharing and mutation can be stated; an object has
    its own properties and a prototype, through which a lookup goes on;
  \<^item> every call made on the driver is recorded, in the order of issue;
  \<^item> a \<^verbatim>\<open>throw\<close> is the left summand of a sum type;
  \<^item> a promise is its eventual fate: the logical time at which it settles, with a value
    or with an error, or nothing when it stays pending for ever.
\<close>

subsection \<open>Values, objects, store\<close>

text \<open>
  JavaScript values as far as the module looks into them: it compares values with
  \<^verbatim>\<open>undefined\<close> and reads \<^verbatim>\<open>response.Item.Data\<close>. Numbers are never computed
  with, so integers stand for them. \<open>Obj\<close> is an object passed around as data (a driver's
  response, a value parsed from JSON), with its own properties in order and
  \<^verbatim>\<open>Object.prototype\<close> as its prototype. \<open>ObjectPrototype\<close> is \<^verbatim>\<open>Object.prototype\<close>
  itself and \<open>Native f\<close> the built-in function of that name.
\<close>

datatype jsval =
    Undefined
  | Null
  | Bool bool
  | Num int
  | Str string
  | Obj "(string \<times> jsval) list"
  | ObjectPrototype
  | Native string

text \<open>
  An object of the store has its own enumerable properties, in order, and a prototype.
  A key may be present with the value \<open>Undefined\<close>.
\<close>

record object =
  own :: "(string \<times> jsval) list"
  proto :: jsval

type_synonym addr = nat
type_synonym store = "object list"

text \<open>
  What a lookup finds on \<^verbatim>\<open>Object.prototype\<close>, for a receiver whose prototype is
  \<open>p\<close>: the built-in methods, and the accessor \<^verbatim>\<open>__proto__\<close>, whose getter returns the
  prototype of the receiver.
\<close>

definition objectPrototypeMember :: "jsval \<Rightarrow> string \<Rightarrow> jsval" where
  "objectPrototypeMember p k =
     (if k = ''__proto__'' then p
      else if k = ''constructor'' then Native ''Object''
      else if k \<in> set [''hasOwnProperty'', ''isPrototypeOf'', ''propertyIsEnumerable'',
                        ''toLocaleString'', ''toString'', ''valueOf'', ''__defineGetter__'',
                        ''__defineSetter__'', ''__lookupGetter__'', ''__lookupSetter__'']
      then Native k
      else Undefined)"

text \<open>
  The lookup of a key through the prototype \<open>p\<close> of a receiver that has no such own
  property. A data object stands before \<^verbatim>\<open>Object.prototype\<close> in the chain; of a
  built-in function only what it inherits from \<^verbatim>\<open>Object.prototype\<close> is modelled.
\<close>

definition inherited :: "jsval \<Rightarrow> string \<Rightarrow> jsval" where
  "inherited p k =
     (case p of
        Obj kvs \<Rightarrow> (case map_of kvs k of Some v \<Rightarrow> v | None \<Rightarrow> objectPrototypeMember p k)
      | ObjectPrototype \<Rightarrow> objectPrototypeMember p k
      | Native f \<Rightarrow> objectPrototypeMember p k
      | _ \<Rightarrow> Undefined)"

text \<open>\<^verbatim>\<open>o[k]\<close> on an object of the store: its own property, or else the inherited one.\<close>

definition getField :: "object \<Rightarrow> string \<Rightarrow> jsval" where
  "getField ob k = (case map_of (own ob) k of None \<Rightarrow> inherited (proto ob) k | Some v \<Rightarrow> v)"

text \<open>An own property is overwritten in place, a new one comes last.\<close>

fun putOwn :: "string \<Rightarrow> jsval \<Rightarrow> (string \<times> jsval) list \<Rightarrow> (string \<times> jsval) list" where
  "putOwn k v [] = [(k, v)]"
| "putOwn k v ((k', v') # kvs) = (if k' = k then (k, v) # kvs else (k', v') # putOwn k v kvs)"

text \<open>
  Whether a lookup of \<^verbatim>\<open>__proto__\<close> through the prototype \<open>p\<close> ends at the accessor
  of \<^verbatim>\<open>Object.prototype\<close> (a data object with a property of that name hides it).
\<close>

definition protoAccessor :: "jsval \<Rightarrow> bool" where
  "protoAccessor p =
     (case p of
        Obj kvs \<Rightarrow> map_of kvs ''__proto__'' = None
      | ObjectPrototype \<Rightarrow> True
      | Native f \<Rightarrow> True
      | _ \<Rightarrow> False)"

fun isObjectOrNull :: "jsval \<Rightarrow> bool" where
  "isObjectOrNull Null = True"
| "isObjectOrNull (Obj kvs) = True"
| "isObjectOrNull ObjectPrototype = True"
| "isObjectOrNull (Native f) = True"
| "isObjectOrNull v = False"

text \<open>
  \<^verbatim>\<open>o[k] = v\<close> on an object of the store. The assignment writes an own property, but
  for \<^verbatim>\<open>__proto__\<close> on an object that has no own property of that name and inherits
  the accessor: then the setter runs, which makes an object or \<^verbatim>\<open>null\<close> the new
  prototype and ignores any other value.
\<close>

definition setField :: "object \<Rightarrow> string \<Rightarrow> jsval \<Rightarrow> object" where
  "setField ob k v =
     (if k = ''__proto__'' \<and> map_of (own ob) k = None \<and> protoAccessor (proto ob)
      then (if isObjectOrNull v then ob\<lparr>proto := v\<rparr> else ob)
      else ob\<lparr>own := putOwn k v (own ob)\<rparr>)"

text \<open>An object literal allocates a new object, at the first unused address.\<close>

definition alloc :: "store \<Rightarrow> object \<Rightarrow> addr \<times> store" where
  "alloc h ob = (length h, h @ [ob])"

text \<open>
  \<^verbatim>\<open>Object.assign(target, ...sources)\<close>: for each source in turn, and for each of its
  own keys, the value is read from the source and assigned to the target.
\<close>

definition Object_assign :: "store \<Rightarrow> addr \<Rightarrow> addr list \<Rightarrow> store" where
  "Object_assign h tgt srcs =
     foldl (\<lambda>h' src.
              foldl (\<lambda>h'' k. h''[tgt := setField (h'' ! tgt) k (getField (h'' ! src) k)])
                h' (remdups (map fst (own (h' ! src)))))
       h srcs"

subsection \<open>Errors and promises\<close>

text \<open>
  \<open>Error m\<close> is \<^verbatim>\<open>new Error(m)\<close>; \<open>TypeError\<close> is what reading a property of
  \<^verbatim>\<open>undefined\<close> or \<^verbatim>\<open>null\<close> throws; \<open>Reason v\<close> is any other value a driver
  rejects with.
\<close>

datatype error = Error string | TypeError | Reason jsval

datatype 'a settled = Fulfilled 'a | Rejected error

text \<open>
  A promise settles at some logical time (counted from the call of the update function,
  which runs at time 0), or never. Two promises with the same time settle in the same
  turn of the event loop; the model does not say which of them settles first.
\<close>

type_synonym 'a promise = "(nat \<times> 'a settled) option"

text \<open>\<^verbatim>\<open>Promise.resolve(v)\<close>: fulfilled from the start.\<close>

definition Promise_resolve :: "'a \<Rightarrow> 'a promise" where
  "Promise_resolve v = Some (0, Fulfilled v)"

text \<open>
  \<^verbatim>\<open>p.then(f)\<close> with a fulfilment handler only: a rejection passes through, a handler
  that throws rejects the derived promise.
\<close>

definition then_promise :: "'a promise \<Rightarrow> ('a \<Rightarrow> error + 'b) \<Rightarrow> 'b promise" where
  "then_promise p f =
     (case p of
        None \<Rightarrow> None
      | Some (t, Rejected e) \<Rightarrow> Some (t, Rejected e)
      | Some (t, Fulfilled v) \<Rightarrow>
          (case f v of Inl e \<Rightarrow> Some (t, Rejected e) | Inr w \<Rightarrow> Some (t, Fulfilled w)))"

text \<open>
  The first rejection among the promises of a list: the earliest one. Among rejections of
  the same turn \<^verbatim>\<open>Promise.all\<close> reports the one that settles first; the model, which
  does not order them, takes the one that stands first in the list. No statement below
  depends on that choice.
\<close>

fun firstRejection :: "'a promise list \<Rightarrow> (nat \<times> error) option" where
  "firstRejection [] = None"
| "firstRejection (p # ps) =
     (case p of
        Some (t, Rejected e) \<Rightarrow>
          (case firstRejection ps of
             Some (t', e') \<Rightarrow> if t' < t then Some (t', e') else Some (t, e)
           | None \<Rightarrow> Some (t, e))
      | _ \<Rightarrow> firstRejection ps)"

text \<open>The time and the values of a list of promises that are all fulfilled.\<close>

fun fulfilledAll :: "'a promise list \<Rightarrow> (nat \<times> 'a list) option" where
  "fulfilledAll [] = Some (0, [])"
| "fulfilledAll (p # ps) =
     (case p of
        Some (t, Fulfilled v) \<Rightarrow>
          (case fulfilledAll ps of
             Some (t', vs) \<Rightarrow> Some (max t t', v # vs)
           | None \<Rightarrow> None)
      | _ \<Rightarrow> None)"

text \<open>
  \<^verbatim>\<open>Promise.all(ps)\<close>: rejected with the first rejection if there is one; otherwise
  fulfilled, once the last promise is, with the list of the values; pending for ever when
  nothing rejects and something never settles.
\<close>

definition Promise_all :: "'a promise list \<Rightarrow> 'a list promise" where
  "Promise_all ps =
     (case firstRejection ps of
        Some (t, e) \<Rightarrow> Some (t, Rejected e)
      | None \<Rightarrow>
          (case fulfilledAll ps of
             Some (t, vs) \<Rightarrow> Some (t, Fulfilled vs)
           | None \<Rightarrow> None))"

subsection \<open>The driver\<close>

text \<open>
  A call on the driver, with the fields of its argument in the order in which the source
  writes them: \<^verbatim>\<open>{tenant, type, node, data, maxGSIK}\<close> for \<^verbatim>\<open>createProperty\<close> and
  \<^verbatim>\<open>{tenant, type, node, target, maxGSIK}\<close> for \<^verbatim>\<open>createEdge\<close>.
\<close>

datatype call =
    createProperty jsval string jsval jsval jsval
  | createEdge jsval string jsval jsval jsval

text \<open>
  The driver is the collaborator: each call returns a promise, whose fate the driver and
  the table behind it decide. Here the fate of a call is a function of its arguments; a
  driver that throws instead of returning a promise is outside the model.
\<close>

type_synonym driver = "call \<Rightarrow> jsval promise"

fun isProperty :: "call \<Rightarrow> bool" where
  "isProperty (createProperty tenant ty node data maxGSIK) = True"
| "isProperty (createEdge tenant ty node target maxGSIK) = False"

fun isEdge :: "call \<Rightarrow> bool" where
  "isEdge (createProperty tenant ty node data maxGSIK) = False"
| "isEdge (createEdge tenant ty node target maxGSIK) = True"

fun callType :: "call \<Rightarrow> string" where
  "callType (createProperty tenant ty node data maxGSIK) = ty"
| "callType (createEdge tenant ty node target maxGSIK) = ty"

fun callNode :: "call \<Rightarrow> jsval" where
  "callNode (createProperty tenant ty node data maxGSIK) = node"
| "callNode (createEdge tenant ty node target maxGSIK) = node"

subsection \<open>The update function (lines 80 to 143)\<close>

text \<open>An entry of \<^verbatim>\<open>edgeMap\<close>; \<open>data\<close> is \<open>Undefined\<close> until the handler of line 124 sets it.\<close>

record edge =
  etype :: string
  target :: jsval
  data :: jsval

text \<open>
  \<^verbatim>\<open>x.k\<close> on a value: a \<open>TypeError\<close> on \<^verbatim>\<open>undefined\<close> and \<^verbatim>\<open>null\<close>, the property
  of an object, \<^verbatim>\<open>undefined\<close> where there is none. Only \<^verbatim>\<open>Item\<close> and \<^verbatim>\<open>Data\<close>
  are read, which no boolean, number or string has.
\<close>

fun getProp :: "jsval \<Rightarrow> string \<Rightarrow> error + jsval" where
  "getProp Undefined k = Inl TypeError"
| "getProp Null k = Inl TypeError"
| "getProp (Obj kvs) k = Inr (case map_of kvs k of None \<Rightarrow> Undefined | Some v \<Rightarrow> v)"
| "getProp v k = Inr Undefined"

text \<open>\<^verbatim>\<open>response => (edge.data = response.Item.Data)\<close>: the value of the handler.\<close>

definition responseData :: "jsval \<Rightarrow> error + jsval" where
  "responseData response =
     (case getProp response ''Item'' of
        Inl e \<Rightarrow> Inl e
      | Inr item \<Rightarrow> getProp item ''Data'')"

text \<open>
  The entry of \<^verbatim>\<open>edgeMap\<close> once the promise of its write has settled: the handler has
  assigned \<open>data\<close> if the write was fulfilled and the response had an \<^verbatim>\<open>Item\<close>; the entry
  is as it was otherwise.
\<close>

definition captured :: "edge \<Rightarrow> jsval promise \<Rightarrow> edge" where
  "captured e p = (case p of Some (t, Fulfilled v) \<Rightarrow> e\<lparr>data := v\<rparr> | _ \<Rightarrow> e)"

text \<open>
  The body of the first \<^verbatim>\<open>forEach\<close>: the call is recorded and its promise pushed.
\<close>

definition pushProperty ::
  "driver \<Rightarrow> jsval \<Rightarrow> jsval \<Rightarrow> jsval \<Rightarrow>
   call list \<times> jsval promise list \<Rightarrow> string \<times> jsval \<Rightarrow> call list \<times> jsval promise list" where
  "pushProperty db tenant node maxGSIK = (\<lambda>(calls, promises) (ty, dat).
     let c = createProperty tenant ty node dat maxGSIK
     in (calls @ [c], promises @ [db c]))"

text \<open>
  The body of the second \<^verbatim>\<open>forEach\<close>: the promise pushed is the one derived by
  \<^verbatim>\<open>then\<close>, and the entry is kept as its handler leaves it.
\<close>

definition pushEdge ::
  "driver \<Rightarrow> jsval \<Rightarrow> jsval \<Rightarrow> jsval \<Rightarrow>
   call list \<times> jsval promise list \<times> edge list \<Rightarrow> edge \<Rightarrow>
   call list \<times> jsval promise list \<times> edge list" where
  "pushEdge db tenant node maxGSIK = (\<lambda>(calls, promises, es) e.
     let c = createEdge tenant (etype e) node (target e) maxGSIK;
         p = then_promise (db c) responseData
     in (calls @ [c], promises @ [p], es @ [captured e p]))"

text \<open>
  The callback of \<^verbatim>\<open>reduce\<close>: \<^verbatim>\<open>Object.assign({}, acc, {['@' + edge.type]: edge.data})\<close>.
  Both literals are new objects, with \<^verbatim>\<open>Object.prototype\<close> as prototype; the first is
  the target and the new accumulator.
\<close>

definition reduceStep :: "store \<times> addr \<Rightarrow> edge \<Rightarrow> store \<times> addr" where
  "reduceStep = (\<lambda>(h, acc) e.
     let (t, h1) = alloc h \<lparr>own = [], proto = ObjectPrototype\<rparr>;
         (s, h2) = alloc h1 \<lparr>own = [(''@'' @ etype e, data e)], proto = ObjectPrototype\<rparr>
     in (Object_assign h2 t [acc, s], t))"

text \<open>
  The handler of line 128: \<^verbatim>\<open>Object.assign({id: node}, doc, edgeMap.reduce(..., {}))\<close>,
  its arguments evaluated from left to right. The result is the address of the target.
\<close>

definition merged :: "store \<Rightarrow> addr \<Rightarrow> jsval \<Rightarrow> edge list \<Rightarrow> addr \<times> store" where
  "merged h doc node es =
     (let (base, h1) = alloc h \<lparr>own = [(''id'', node)], proto = ObjectPrototype\<rparr>;
          (acc0, h2) = alloc h1 \<lparr>own = [], proto = ObjectPrototype\<rparr>;
          (h3, acc) = foldl reduceStep (h2, acc0) es
      in (base, Object_assign h3 base [doc, acc]))"

text \<open>
  Lines 85 to 126, for a node and the document \<open>d\<close> as it is when the function is called:
  the calls made on the driver, the array \<^verbatim>\<open>promises\<close>, and the entries of
  \<^verbatim>\<open>edgeMap\<close> as the handlers leave them.
\<close>

definition writes ::
  "driver \<Rightarrow> jsval \<Rightarrow> jsval \<Rightarrow> string list \<Rightarrow> string list \<Rightarrow> jsval \<Rightarrow> object \<Rightarrow>
   call list \<times> jsval promise list \<times> edge list" where
  "writes db tenant maxGSIK properties edges node d =
     (let promises = [Promise_resolve Undefined];
          propMap = map (\<lambda>property. (property, getField d property))
                      (filter (\<lambda>property. getField d property \<noteq> Undefined) properties);
          edgeMap = map (\<lambda>e. \<lparr>etype = e, target = getField d e, data = Undefined\<rparr>)
                      (filter (\<lambda>e. getField d e \<noteq> Undefined) edges);
          (calls1, promises1) =
            (if length propMap > 0
             then foldl (pushProperty db tenant node maxGSIK) ([], promises) propMap
             else ([], promises))
      in if length edgeMap > 0
         then foldl (pushEdge db tenant node maxGSIK) (calls1, promises1, []) edgeMap
         else (calls1, promises1, edgeMap))"

text \<open>
  The update function, closed over \<open>db\<close>, \<open>tenant\<close>, \<open>maxGSIK\<close>, \<open>properties\<close> and
  \<open>edges\<close>. \<open>h\<close> is the store when the function is called and \<open>doc\<close> the address of the
  document in it; \<open>h'\<close> is the store when the joined promise is fulfilled, which is when
  the handler of line 128 reads the document again. The result is the list of the calls
  made on the driver, and either the error thrown or the promise returned; a fulfilled
  promise carries the address of the result and the store that holds it.
\<close>

definition update ::
  "driver \<Rightarrow> jsval \<Rightarrow> jsval \<Rightarrow> string list \<Rightarrow> string list \<Rightarrow>
   store \<Rightarrow> addr \<Rightarrow> store \<Rightarrow> call list \<times> (error + (addr \<times> store) promise)" where
  "update db tenant maxGSIK properties edges h doc h' =
     (let node = getField (h ! doc) ''id'' in
      if node = Undefined then ([], Inl (Error ''Node is undefined''))
      else
        let (calls, promises, edgeMap) =
              writes db tenant maxGSIK properties edges node (h ! doc)
        in (calls,
            Inr (then_promise (Promise_all promises)
                   (\<lambda>result. Inr (merged h' doc node edgeMap)))))"

subsection \<open>Configuration (lines 72 to 78)\<close>

text \<open>
  The options object. A field that is \<^verbatim>\<open>undefined\<close> or absent is \<open>None\<close> for \<open>db\<close>,
  \<open>properties\<close> and \<open>edges\<close>, and the value \<open>Undefined\<close> for the others.
\<close>

record options =
  db :: "driver option"
  tenant :: jsval
  type :: jsval
  key :: jsval
  maxGSIK :: jsval
  properties :: "string list option"
  edges :: "string list option"

text \<open>The destructuring defaults \<^verbatim>\<open>properties = []\<close> and \<^verbatim>\<open>edges = []\<close>.\<close>

definition orEmpty :: "string list option \<Rightarrow> string list" where
  "orEmpty xs = (case xs of None \<Rightarrow> [] | Some ys \<Rightarrow> ys)"

definition create ::
  "options \<Rightarrow>
   error + (store \<Rightarrow> addr \<Rightarrow> store \<Rightarrow> call list \<times> (error + (addr \<times> store) promise))" where
  "create opts =
     (case db opts of
        None \<Rightarrow> Inl (Error ''DB driver is undefined'')
      | Some d \<Rightarrow>
          if type opts = Undefined then Inl (Error ''Type is undefined'')
          else if key opts = Undefined then Inl (Error ''Key is undefined'')
          else if maxGSIK opts = Undefined then Inl (Error ''Max GSIK is undefined'')
          else Inr (update d (tenant opts) (maxGSIK opts)
                      (orEmpty (properties opts)) (orEmpty (edges opts))))"

text \<open>
  \<^verbatim>\<open>create(options)(doc)\<close>: configuration followed by one update. A configuration that
  throws has called nothing.
\<close>

definition documentUpdate ::
  "options \<Rightarrow> store \<Rightarrow> addr \<Rightarrow> store \<Rightarrow> call list \<times> (error + (addr \<times> store) promise)" where
  "documentUpdate opts h doc h' =
     (case create opts of
        Inl e \<Rightarrow> ([], Inl e)
      | Inr f \<Rightarrow> f h doc h')"

subsection \<open>The example of the module's documentation\<close>

text \<open>
  The documentation of the module configures a model of books (type \<^verbatim>\<open>Book\<close>, key
  \<^verbatim>\<open>Name\<close>, property \<^verbatim>\<open>Genre\<close>, edges \<^verbatim>\<open>Author\<close> and \<^verbatim>\<open>Likes[]\<close>, four
  partitions) and updates the book \<^verbatim>\<open>Elantris\<close> with a genre and an author. Here the
  driver fulfils a property write at time 1 and an edge write at time 2, the latter with
  the data of the target node, as the documentation shows it.
\<close>

definition bookDriver :: driver where
  "bookDriver c =
     (case c of
        createProperty ten ty nd dat mg \<Rightarrow>
          Some (1, Fulfilled (Obj [(''Item'', Obj [(''Data'', dat)])]))
      | createEdge ten ty nd tg mg \<Rightarrow>
          Some (2, Fulfilled (Obj [(''Item'', Obj [(''Data'', Str ''Brandon Sanderson'')])])))"

definition bookOptions :: options where
  "bookOptions =
     \<lparr>db = Some bookDriver, tenant = Str ''cuit'', type = Str ''Book'', key = Str ''Name'',
      maxGSIK = Num 4, properties = Some [''Genre''], edges = Some [''Author'', ''Likes[]'']\<rparr>"

definition bookStore :: store where
  "bookStore =
     [\<lparr>own = [(''id'', Str ''cuix''), (''Name'', Str ''Elantris''), (''Genre'', Str ''Fantasy''),
              (''Author'', Str ''cuiv'')],
       proto = ObjectPrototype\<rparr>]"

text \<open>
  A driver in trouble: the write of the genre is rejected at time 1, every other write at
  time 2, with another error.
\<close>

definition failingDriver :: driver where
  "failingDriver c =
     (if callType c = ''Genre'' then Some (1, Rejected (Error ''throttled''))
      else Some (2, Rejected (Error ''unavailable'')))"

text \<open>
  Two documents as \<^verbatim>\<open>JSON.parse\<close> returns them, where \<^verbatim>\<open>__proto__\<close> is an own property
  like any other: \<^verbatim>\<open>{"id":"cuix","Author":"cuiv","__proto__":5}\<close> at address 0 and
  \<^verbatim>\<open>{"id":"cuiy","__proto__":{"isAdmin":true}}\<close> at address 1.
\<close>

definition parsedStore :: store where
  "parsedStore =
     [\<lparr>own = [(''id'', Str ''cuix''), (''Author'', Str ''cuiv''), (''__proto__'', Num 5)],
       proto = ObjectPrototype\<rparr>,
      \<lparr>own = [(''id'', Str ''cuiy''), (''__proto__'', Obj [(''isAdmin'', Bool True)])],
       proto = ObjectPrototype\<rparr>]"

text \<open>
  A driver that fulfils every edge write at time 1 with a response that has no
  \<^verbatim>\<open>Item\<close>, and rejects every property write at time 2.
\<close>

definition emptyResponseDriver :: driver where
  "emptyResponseDriver c =
     (if isEdge c then Some (1, Fulfilled (Obj []))
      else Some (2, Rejected (Error ''unavailable'')))"

section \<open>Auxiliary facts\<close>

subsection \<open>The two loops in closed form\<close>

lemma foldl_pushProperty:
  "foldl (pushProperty drv ten nd mg) (cs, ps) pm =
     (cs @ map (\<lambda>(ty, dat). createProperty ten ty nd dat mg) pm,
      ps @ map (\<lambda>(ty, dat). drv (createProperty ten ty nd dat mg)) pm)"
  by (induction pm arbitrary: cs ps) (auto simp: pushProperty_def Let_def)

lemma foldl_pushEdge:
  "foldl (pushEdge drv ten nd mg) (cs, ps, es) em =
     (cs @ map (\<lambda>e. createEdge ten (etype e) nd (target e) mg) em,
      ps @ map (\<lambda>e. then_promise (drv (createEdge ten (etype e) nd (target e) mg))
                      responseData) em,
      es @ map (\<lambda>e. captured e
                      (then_promise (drv (createEdge ten (etype e) nd (target e) mg))
                         responseData)) em)"
  by (induction em arbitrary: cs ps es) (auto simp: pushEdge_def Let_def)

lemma writes_eq:
  "writes drv ten mg props edgs nd d =
     (map (\<lambda>p. createProperty ten p nd (getField d p) mg)
        (filter (\<lambda>p. getField d p \<noteq> Undefined) props) @
      map (\<lambda>e. createEdge ten e nd (getField d e) mg)
        (filter (\<lambda>e. getField d e \<noteq> Undefined) edgs),
      Promise_resolve Undefined #
      map (\<lambda>p. drv (createProperty ten p nd (getField d p) mg))
        (filter (\<lambda>p. getField d p \<noteq> Undefined) props) @
      map (\<lambda>e. then_promise (drv (createEdge ten e nd (getField d e) mg)) responseData)
        (filter (\<lambda>e. getField d e \<noteq> Undefined) edgs),
      map (\<lambda>e. captured \<lparr>etype = e, target = getField d e, data = Undefined\<rparr>
                  (then_promise (drv (createEdge ten e nd (getField d e) mg)) responseData))
        (filter (\<lambda>e. getField d e \<noteq> Undefined) edgs))"
  by (simp add: writes_def Let_def foldl_pushProperty foldl_pushEdge comp_def)

subsection \<open>Joining promises\<close>

lemma firstRejection_None_iff:
  "firstRejection ps = None \<longleftrightarrow> (\<forall>t e. Some (t, Rejected e) \<notin> set ps)"
  by (induction ps) (auto split: option.splits settled.splits prod.splits)

lemma firstRejection_Some_mem:
  "firstRejection ps = Some (t, e) \<Longrightarrow> Some (t, Rejected e) \<in> set ps"
  by (induction ps arbitrary: t e)
     (auto split: option.splits settled.splits prod.splits if_splits)

lemma firstRejection_Some_least:
  "firstRejection ps = Some (t, e) \<Longrightarrow> Some (t', Rejected e') \<in> set ps \<Longrightarrow> t \<le> t'"
  by (induction ps arbitrary: t e)
     (fastforce split: option.splits settled.splits prod.splits if_splits
        simp: firstRejection_None_iff)+

lemma fulfilledAll_Some_mem:
  "fulfilledAll ps = Some (T, vs) \<Longrightarrow> p \<in> set ps \<Longrightarrow>
   \<exists>t v. p = Some (t, Fulfilled v) \<and> t \<le> T"
  by (induction ps arbitrary: T vs)
     (fastforce split: option.splits settled.splits prod.splits if_splits)+

lemma fulfilledAll_no_rejection:
  "fulfilledAll ps = Some (T, vs) \<Longrightarrow> firstRejection ps = None"
  by (auto simp: firstRejection_None_iff dest: fulfilledAll_Some_mem)

lemma Promise_all_Fulfilled_iff:
  "Promise_all ps = Some (T, Fulfilled vs) \<longleftrightarrow> fulfilledAll ps = Some (T, vs)"
  by (auto simp: Promise_all_def fulfilledAll_no_rejection split: option.splits prod.splits)

lemma Promise_all_Rejected_iff:
  "Promise_all ps = Some (t, Rejected e) \<longleftrightarrow> firstRejection ps = Some (t, e)"
  by (auto simp: Promise_all_def split: option.splits prod.splits)

subsection \<open>Assignment to an object\<close>

lemma map_of_putOwn: "map_of (putOwn k v kvs) = (map_of kvs)(k \<mapsto> v)"
  by (induction kvs) (auto simp: fun_eq_iff)

text \<open>Whether assigning \<open>__proto__\<close> to the object runs the setter.\<close>

lemma own_setField:
  "map_of (own (setField ob k v)) =
     (if k = ''__proto__'' \<and> map_of (own ob) ''__proto__'' = None \<and> protoAccessor (proto ob)
      then map_of (own ob) else (map_of (own ob))(k \<mapsto> v))"
  by (auto simp: setField_def map_of_putOwn)

lemma proto_setField:
  "proto (setField ob k v) =
     (if k = ''__proto__'' \<and> map_of (own ob) ''__proto__'' = None \<and> protoAccessor (proto ob) \<and>
         isObjectOrNull v
      then v else proto ob)"
  by (auto simp: setField_def)

lemma foldl_setField_other:
  "''__proto__'' \<notin> set ks \<Longrightarrow>
   map_of (own (foldl (\<lambda>t k. setField t k (f k)) t ks)) =
     (\<lambda>k. if k \<in> set ks then Some (f k) else map_of (own t) k) \<and>
   proto (foldl (\<lambda>t k. setField t k (f k)) t ks) = proto t"
proof (induction ks arbitrary: t)
  case Nil
  then show ?case by simp
next
  case (Cons k ks)
  from Cons.prems have k: "k \<noteq> ''__proto__''" and ks: "''__proto__'' \<notin> set ks"
    by auto
  have o: "map_of (own (setField t k (f k))) = (map_of (own t))(k \<mapsto> f k)"
    using k by (simp only: own_setField if_False simp_thms)
  have p: "proto (setField t k (f k)) = proto t"
    using k by (simp only: proto_setField if_False simp_thms)
  from Cons.IH [OF ks, of "setField t k (f k)"] show ?case
    by (simp only: foldl_Cons o p) (auto simp: fun_eq_iff)
qed

lemma foldl_setField:
  assumes "distinct ks"
  shows "map_of (own (foldl (\<lambda>t k. setField t k (f k)) t ks)) =
     (\<lambda>k. if k \<in> set ks \<and>
             \<not> (k = ''__proto__'' \<and> map_of (own t) ''__proto__'' = None \<and>
                protoAccessor (proto t))
          then Some (f k) else map_of (own t) k) \<and>
   proto (foldl (\<lambda>t k. setField t k (f k)) t ks) =
     (if ''__proto__'' \<in> set ks \<and> map_of (own t) ''__proto__'' = None \<and>
         protoAccessor (proto t) \<and> isObjectOrNull (f ''__proto__'')
      then f ''__proto__'' else proto t)"
  using assms
proof (induction ks arbitrary: t)
  case Nil
  then show ?case by simp
next
  case (Cons k ks)
  then have d: "distinct ks" and nk: "k \<notin> set ks" by auto
  show ?case
  proof (cases "k = ''__proto__''")
    case True
    with nk have np: "''__proto__'' \<notin> set ks" by simp
    from foldl_setField_other [OF np, of f "setField t k (f k)"] show ?thesis
      by (simp only: foldl_Cons) (auto simp: fun_eq_iff own_setField proto_setField True np)
  next
    case False
    have o: "map_of (own (setField t k (f k))) = (map_of (own t))(k \<mapsto> f k)"
      using False by (simp only: own_setField if_False simp_thms)
    have p: "proto (setField t k (f k)) = proto t"
      using False by (simp only: proto_setField if_False simp_thms)
    from Cons.IH [OF d, of "setField t k (f k)"] show ?thesis
      using False nk by (simp only: foldl_Cons o p) (auto simp: fun_eq_iff)
  qed
qed


text \<open>Assigning the own properties of one object to another.\<close>

lemma foldl_setField_store:
  "tgt < length h \<Longrightarrow> src \<noteq> tgt \<Longrightarrow>
   foldl (\<lambda>h'' k. h''[tgt := setField (h'' ! tgt) k (getField (h'' ! src) k)]) h ks =
   h[tgt := foldl (\<lambda>t k. setField t k (getField (h ! src) k)) (h ! tgt) ks]"
proof (induction ks arbitrary: h)
  case Nil
  then show ?case by simp
next
  case (Cons k ks)
  let ?h1 = "h[tgt := setField (h ! tgt) k (getField (h ! src) k)]"
  have l: "tgt < length ?h1" using Cons.prems by simp
  have s: "?h1 ! src = h ! src" using Cons.prems by simp
  have t: "?h1 ! tgt = setField (h ! tgt) k (getField (h ! src) k)"
    using Cons.prems by simp
  from Cons.IH [OF l Cons.prems(2)] show ?case
    by (simp only: foldl_Cons s t list_update_overwrite)
qed

lemma getField_own:
  "k \<in> fst ` set (own ob) \<Longrightarrow> Some (getField ob k) = map_of (own ob) k"
  by (auto simp: getField_def map_of_eq_None_iff split: option.splits)

lemma Object_assign_one:
  assumes "tgt < length h" and "src \<noteq> tgt"
  shows "\<exists>t. Object_assign h tgt [src] = h[tgt := t] \<and>
     map_of (own t) =
       (if map_of (own (h ! tgt)) ''__proto__'' = None \<and> protoAccessor (proto (h ! tgt))
        then map_of (own (h ! tgt)) ++ (map_of (own (h ! src)))(''__proto__'' := None)
        else map_of (own (h ! tgt)) ++ map_of (own (h ! src))) \<and>
     proto t =
       (if map_of (own (h ! tgt)) ''__proto__'' = None \<and> protoAccessor (proto (h ! tgt))
        then (case map_of (own (h ! src)) ''__proto__'' of
                Some v \<Rightarrow> if isObjectOrNull v then v else proto (h ! tgt)
              | None \<Rightarrow> proto (h ! tgt))
        else proto (h ! tgt))"
proof -
  let ?ks = "remdups (map fst (own (h ! src)))"
  let ?t = "foldl (\<lambda>t k. setField t k (getField (h ! src) k)) (h ! tgt) ?ks"
  have a: "Object_assign h tgt [src] = h[tgt := ?t]"
    by (simp add: Object_assign_def foldl_setField_store [OF assms])
  have d: "distinct ?ks" by simp
  note f = foldl_setField [OF d, of "getField (h ! src)" "h ! tgt"]
  have g: "k \<in> set ?ks \<Longrightarrow> Some (getField (h ! src) k) = map_of (own (h ! src)) k" for k
    by (simp add: getField_own)
  have n: "k \<notin> set ?ks \<Longrightarrow> map_of (own (h ! src)) k = None" for k
    by (simp add: map_of_eq_None_iff)
  have o: "map_of (own ?t) =
       (if map_of (own (h ! tgt)) ''__proto__'' = None \<and> protoAccessor (proto (h ! tgt))
        then map_of (own (h ! tgt)) ++ (map_of (own (h ! src)))(''__proto__'' := None)
        else map_of (own (h ! tgt)) ++ map_of (own (h ! src)))"
  proof (rule ext)
    fix k
    show "map_of (own ?t) k =
       (if map_of (own (h ! tgt)) ''__proto__'' = None \<and> protoAccessor (proto (h ! tgt))
        then map_of (own (h ! tgt)) ++ (map_of (own (h ! src)))(''__proto__'' := None)
        else map_of (own (h ! tgt)) ++ map_of (own (h ! src))) k"
    proof (cases "k \<in> set ?ks")
      case True
      then have m: "k \<in> fst ` set (own (h ! src))" by simp
      from g [OF True] m show ?thesis
        by (auto simp: conjunct1 [OF f] map_add_def split: option.splits)
    next
      case False
      then have m: "k \<notin> fst ` set (own (h ! src))" by simp
      from n [OF False] m show ?thesis
        by (auto simp: conjunct1 [OF f] map_add_def split: option.splits)
    qed
  qed
  have p: "proto ?t =
       (if map_of (own (h ! tgt)) ''__proto__'' = None \<and> protoAccessor (proto (h ! tgt))
        then (case map_of (own (h ! src)) ''__proto__'' of
                Some v \<Rightarrow> if isObjectOrNull v then v else proto (h ! tgt)
              | None \<Rightarrow> proto (h ! tgt))
        else proto (h ! tgt))"
  proof (cases "''__proto__'' \<in> set ?ks")
    case True
    then have m: "''__proto__'' \<in> fst ` set (own (h ! src))" by simp
    from g [OF True] m show ?thesis
      by (auto simp: conjunct2 [OF f] split: option.splits)
  next
    case False
    then have m: "''__proto__'' \<notin> fst ` set (own (h ! src))" by simp
    from n [OF False] m show ?thesis
      by (auto simp: conjunct2 [OF f] split: option.splits)
  qed
  from a o p show ?thesis by blast
qed

subsection \<open>The store under the merge\<close>

lemma Object_assign_two:
  "Object_assign h tgt [a, b] = Object_assign (Object_assign h tgt [a]) tgt [b]"
  by (simp add: Object_assign_def)

text \<open>Onto a target that still has the prototype of a literal and no own \<open>__proto__\<close>.\<close>

lemma Object_assign_literal:
  assumes "tgt < length h" and "src \<noteq> tgt"
    and "map_of (own (h ! tgt)) ''__proto__'' = None"
    and "proto (h ! tgt) = ObjectPrototype"
  shows "\<exists>t. Object_assign h tgt [src] = h[tgt := t] \<and>
     map_of (own t) =
       map_of (own (h ! tgt)) ++ (map_of (own (h ! src)))(''__proto__'' := None) \<and>
     proto t =
       (case map_of (own (h ! src)) ''__proto__'' of
          Some v \<Rightarrow> if isObjectOrNull v then v else ObjectPrototype
        | None \<Rightarrow> ObjectPrototype)"
proof -
  have a: "protoAccessor ObjectPrototype"
    by (simp add: protoAccessor_def)
  from Object_assign_one [OF assms(1,2)] show ?thesis
    by (simp only: assms(3,4) a simp_thms if_True)
qed

text \<open>From a source that has no own \<open>__proto__\<close>.\<close>

lemma Object_assign_plain:
  assumes "tgt < length h" and "src \<noteq> tgt"
    and "map_of (own (h ! src)) ''__proto__'' = None"
  shows "\<exists>t. Object_assign h tgt [src] = h[tgt := t] \<and>
     map_of (own t) = map_of (own (h ! tgt)) ++ map_of (own (h ! src)) \<and>
     proto t = proto (h ! tgt)"
proof -
  have "(map_of (own (h ! src)))(''__proto__'' := None) = map_of (own (h ! src))"
    using assms(3) by (simp add: fun_upd_idem)
  with Object_assign_one [OF assms(1,2)] assms(3) show ?thesis
    by (simp only: option.case if_cancel)
qed

lemma reduceStep_eq:
  assumes "acc < length h" and "map_of (own (h ! acc)) ''__proto__'' = None"
  shows "\<exists>t. reduceStep (h, acc) e =
           (h @ [t, \<lparr>own = [(''@'' @ etype e, data e)], proto = ObjectPrototype\<rparr>], length h) \<and>
         map_of (own t) = (map_of (own (h ! acc)))(''@'' @ etype e \<mapsto> data e) \<and>
         proto t = ObjectPrototype"
proof -
  let ?s = "\<lparr>own = [(''@'' @ etype e, data e)], proto = ObjectPrototype\<rparr>"
  let ?h2 = "h @ [\<lparr>own = [], proto = ObjectPrototype\<rparr>, ?s]"
  have r: "reduceStep (h, acc) e =
      (Object_assign (Object_assign ?h2 (length h) [acc]) (length h) [Suc (length h)], length h)"
    by (simp add: reduceStep_def alloc_def Object_assign_two)
  have l: "length h < length ?h2" by simp
  have a: "acc \<noteq> length h" using assms(1) by simp
  have hacc: "?h2 ! acc = h ! acc" using assms(1) by (simp add: nth_append)
  have ht: "?h2 ! length h = \<lparr>own = [], proto = ObjectPrototype\<rparr>" by simp
  have sacc: "map_of (own (?h2 ! acc)) ''__proto__'' = None"
    using assms(2) by (simp only: hacc)
  from Object_assign_plain [OF l a sacc] obtain t1 where
    1: "Object_assign ?h2 (length h) [acc] = ?h2[length h := t1]" and
    o1': "map_of (own t1) = map_of (own (?h2 ! length h)) ++ map_of (own (?h2 ! acc))" and
    p1': "proto t1 = proto (?h2 ! length h)"
    by blast
  have o1: "map_of (own t1) = map_of (own (h ! acc))"
    using o1' by (simp only: hacc ht) simp
  have p1: "proto t1 = ObjectPrototype"
    using p1' by (simp only: ht) simp
  let ?h3 = "?h2[length h := t1]"
  have l3: "length h < length ?h3" by simp
  have s3: "Suc (length h) \<noteq> length h" by simp
  have h3s: "?h3 ! Suc (length h) = ?s" by (simp add: nth_append)
  have h3t: "?h3 ! length h = t1" by simp
  have ss: "map_of (own (?h3 ! Suc (length h))) ''__proto__'' = None"
    by (simp only: h3s) simp
  from Object_assign_plain [OF l3 s3 ss] obtain t2 where
    2: "Object_assign ?h3 (length h) [Suc (length h)] = ?h3[length h := t2]" and
    o2': "map_of (own t2) = map_of (own (?h3 ! length h)) ++ map_of (own (?h3 ! Suc (length h)))" and
    p2': "proto t2 = proto (?h3 ! length h)"
    by blast
  have o2: "map_of (own t2) = (map_of (own (h ! acc)))(''@'' @ etype e \<mapsto> data e)"
    using o2' by (simp only: h3s h3t o1) simp
  have p2: "proto t2 = ObjectPrototype"
    using p2' by (simp only: h3t p1)
  have "?h3[length h := t2] = h @ [t2, ?s]"
    by (simp add: list_update_append)
  with r 1 2 have "reduceStep (h, acc) e = (h @ [t2, ?s], length h)"
    by simp
  with o2 p2 show ?thesis by blast
qed

lemma foldl_reduceStep:
  "acc < length h \<Longrightarrow> map_of (own (h ! acc)) ''__proto__'' = None \<Longrightarrow>
   \<exists>ext acc'. foldl reduceStep (h, acc) es = (h @ ext, acc') \<and> acc \<le> acc' \<and>
      acc' < length (h @ ext) \<and>
      map_of (own ((h @ ext) ! acc')) =
        foldl (\<lambda>m e. m(''@'' @ etype e \<mapsto> data e)) (map_of (own (h ! acc))) es \<and>
      map_of (own ((h @ ext) ! acc')) ''__proto__'' = None"
proof (induction es arbitrary: h acc)
  case Nil
  then show ?case by (intro exI [of _ "[]"]) simp
next
  case (Cons e es)
  from reduceStep_eq [OF Cons.prems, of e] obtain t where
    r: "reduceStep (h, acc) e =
           (h @ [t, \<lparr>own = [(''@'' @ etype e, data e)], proto = ObjectPrototype\<rparr>], length h)" and
    o: "map_of (own t) = (map_of (own (h ! acc)))(''@'' @ etype e \<mapsto> data e)"
    by blast
  let ?new = "[t, \<lparr>own = [(''@'' @ etype e, data e)], proto = ObjectPrototype\<rparr>]"
  have l: "length h < length (h @ ?new)" by simp
  have n: "map_of (own ((h @ ?new) ! length h)) ''__proto__'' = None"
    using o Cons.prems(2) by simp
  from Cons.IH [OF l n] obtain ext acc' where
    f: "foldl reduceStep (h @ ?new, length h) es = ((h @ ?new) @ ext, acc')" and
    le: "length h \<le> acc'" and lt: "acc' < length ((h @ ?new) @ ext)" and
    v: "map_of (own (((h @ ?new) @ ext) ! acc')) =
          foldl (\<lambda>m e. m(''@'' @ etype e \<mapsto> data e))
            (map_of (own ((h @ ?new) ! length h))) es" and
    np: "map_of (own (((h @ ?new) @ ext) ! acc')) ''__proto__'' = None"
    by blast
  have "foldl reduceStep (h, acc) (e # es) = (h @ (?new @ ext), acc')"
    using f r by simp
  moreover have "acc \<le> acc'" using le Cons.prems(1) by simp
  moreover have "acc' < length (h @ (?new @ ext))"
    using lt by simp
  moreover have "map_of (own ((h @ (?new @ ext)) ! acc')) =
      foldl (\<lambda>m e. m(''@'' @ etype e \<mapsto> data e)) (map_of (own (h ! acc))) (e # es)"
    using v o by simp
  moreover have "map_of (own ((h @ (?new @ ext)) ! acc')) ''__proto__'' = None"
    using np by simp
  ultimately show ?case by blast
qed

text \<open>
  The result of the merge: the own properties of the document but \<open>__proto__\<close> over
  \<open>id\<close>, then the entries of the edges; an own \<open>__proto__\<close> of the document goes
  through the setter.
\<close>

lemma merged_eq:
  assumes "doc < length h"
  shows "\<exists>res ext. merged h doc nd es = (length h, h @ res # ext) \<and>
           map_of (own res) =
             [''id'' \<mapsto> nd] ++ (map_of (own (h ! doc)))(''__proto__'' := None) ++
             foldl (\<lambda>m e. m(''@'' @ etype e \<mapsto> data e)) Map.empty es \<and>
           proto res =
             (case map_of (own (h ! doc)) ''__proto__'' of
                Some v \<Rightarrow> if isObjectOrNull v then v else ObjectPrototype
              | None \<Rightarrow> ObjectPrototype)"
proof -
  let ?b = "\<lparr>own = [(''id'', nd)], proto = ObjectPrototype\<rparr>"
  let ?e = "\<lparr>own = [], proto = ObjectPrototype\<rparr>"
  let ?h2 = "h @ [?b, ?e]"
  let ?acc = "foldl (\<lambda>m e. m(''@'' @ etype e \<mapsto> data e)) Map.empty es"
  have l: "length h + 1 < length ?h2" by simp
  have n: "map_of (own (?h2 ! (length h + 1))) ''__proto__'' = None"
    by (simp add: nth_append)
  from foldl_reduceStep [OF l n, of es] obtain ext acc' where
    f: "foldl reduceStep (?h2, length h + 1) es = (?h2 @ ext, acc')" and
    le: "length h + 1 \<le> acc'" and lt: "acc' < length (?h2 @ ext)" and
    v0: "map_of (own ((?h2 @ ext) ! acc')) =
          foldl (\<lambda>m e. m(''@'' @ etype e \<mapsto> data e))
            (map_of (own (?h2 ! (length h + 1)))) es" and
    np: "map_of (own ((?h2 @ ext) ! acc')) ''__proto__'' = None"
    by blast
  have "map_of (own (?h2 ! (length h + 1))) = Map.empty"
    by (simp add: nth_append)
  with v0 have v: "map_of (own ((?h2 @ ext) ! acc')) = ?acc"
    by (simp only:)
  let ?h3 = "?h2 @ ext"
  have m: "merged h doc nd es =
      (length h, Object_assign (Object_assign ?h3 (length h) [doc]) (length h) [acc'])"
    using f by (simp add: merged_def alloc_def Object_assign_two)
  have lb: "length h < length ?h3" by simp
  have db: "doc \<noteq> length h" using assms by simp
  have hd: "?h3 ! doc = h ! doc" using assms by (simp add: nth_append)
  have hb: "?h3 ! length h = ?b" by (simp add: nth_append)
  have bn: "map_of (own (?h3 ! length h)) ''__proto__'' = None"
    by (simp only: hb) simp
  have bp: "proto (?h3 ! length h) = ObjectPrototype"
    by (simp only: hb) simp
  from Object_assign_literal [OF lb db bn bp] obtain t1 where
    1: "Object_assign ?h3 (length h) [doc] = ?h3[length h := t1]" and
    o1': "map_of (own t1) =
           map_of (own (?h3 ! length h)) ++ (map_of (own (?h3 ! doc)))(''__proto__'' := None)" and
    p1': "proto t1 =
           (case map_of (own (?h3 ! doc)) ''__proto__'' of
              Some v \<Rightarrow> if isObjectOrNull v then v else ObjectPrototype
            | None \<Rightarrow> ObjectPrototype)"
    by blast
  have o1: "map_of (own t1) = [''id'' \<mapsto> nd] ++ (map_of (own (h ! doc)))(''__proto__'' := None)"
    using o1' by (simp only: hd hb) simp
  have p1: "proto t1 =
           (case map_of (own (h ! doc)) ''__proto__'' of
              Some v \<Rightarrow> if isObjectOrNull v then v else ObjectPrototype
            | None \<Rightarrow> ObjectPrototype)"
    using p1' by (simp only: hd)
  let ?h4 = "?h3[length h := t1]"
  have l4: "length h < length ?h4" by simp
  have a4: "acc' \<noteq> length h" using le by simp
  have "length h \<noteq> acc'" using a4 by simp
  then have h4a: "?h4 ! acc' = ?h3 ! acc'" by (rule nth_list_update_neq)
  have h4t: "?h4 ! length h = t1" by simp
  have an: "map_of (own (?h4 ! acc')) ''__proto__'' = None"
    using np by (simp only: h4a)
  from Object_assign_plain [OF l4 a4 an] obtain t2 where
    2: "Object_assign ?h4 (length h) [acc'] = ?h4[length h := t2]" and
    o2': "map_of (own t2) = map_of (own (?h4 ! length h)) ++ map_of (own (?h4 ! acc'))" and
    p2': "proto t2 = proto (?h4 ! length h)"
    by blast
  have o2: "map_of (own t2) =
      [''id'' \<mapsto> nd] ++ (map_of (own (h ! doc)))(''__proto__'' := None) ++ ?acc"
    using o2' by (simp only: h4a h4t o1 v)
  have p2: "proto t2 =
           (case map_of (own (h ! doc)) ''__proto__'' of
              Some v \<Rightarrow> if isObjectOrNull v then v else ObjectPrototype
            | None \<Rightarrow> ObjectPrototype)"
    using p2' by (simp only: h4t p1)
  have "?h4[length h := t2] = h @ t2 # (?e # ext)"
    by (simp add: list_update_append)
  with m 1 2 have "merged h doc nd es = (length h, h @ t2 # (?e # ext))"
    by simp
  with o2 p2 show ?thesis by blast
qed

subsection \<open>Configuration and update\<close>

lemma create_Inr:
  "create opts = Inr f \<Longrightarrow>
   \<exists>drv. db opts = Some drv \<and> type opts \<noteq> Undefined \<and> key opts \<noteq> Undefined \<and>
     maxGSIK opts \<noteq> Undefined \<and>
     f = update drv (tenant opts) (maxGSIK opts)
           (orEmpty (properties opts)) (orEmpty (edges opts))"
  by (auto simp: create_def split: option.splits if_splits)

lemma update_throws:
  "getField (h ! doc) ''id'' = Undefined \<Longrightarrow>
   update drv ten mg props edgs h doc h' = ([], Inl (Error ''Node is undefined''))"
  by (simp add: update_def)

lemma update_returns:
  "getField (h ! doc) ''id'' \<noteq> Undefined \<Longrightarrow>
   update drv ten mg props edgs h doc h' =
     (fst (writes drv ten mg props edgs (getField (h ! doc) ''id'') (h ! doc)),
      Inr (then_promise
             (Promise_all
                (fst (snd (writes drv ten mg props edgs (getField (h ! doc) ''id'') (h ! doc)))))
             (\<lambda>result. Inr (merged h' doc (getField (h ! doc) ''id'')
                (snd (snd (writes drv ten mg props edgs (getField (h ! doc) ''id'')
                   (h ! doc))))))))"
  by (simp add: update_def Let_def split: prod.splits)

subsection \<open>Counting calls\<close>

lemma filter_isProperty_calls:
  "filter isProperty (map (\<lambda>p. createProperty ten p nd (g p) mg) xs @
                      map (\<lambda>e. createEdge ten e nd (g' e) mg) ys) =
   map (\<lambda>p. createProperty ten p nd (g p) mg) xs"
  by (simp add: filter_map comp_def)

lemma count_property_calls:
  "length (filter (\<lambda>c. isProperty c \<and> callType c = p)
     (map (\<lambda>p. createProperty ten p nd (g p) mg) xs @
      map (\<lambda>e. createEdge ten e nd (g' e) mg) ys)) = count_list xs p"
  by (induction xs) (auto simp: filter_map comp_def)

lemma count_list_filter:
  "count_list (filter P xs) p = (if P p then count_list xs p else 0)"
  by (induction xs) auto

lemma count_list_distinct:
  "distinct xs \<Longrightarrow> count_list xs p = (if p \<in> set xs then 1 else 0)"
  by (induction xs) auto

lemma update_calls:
  assumes "getField (h ! doc) ''id'' \<noteq> Undefined"
  shows "fst (update drv ten mg props edgs h doc h') =
      map (\<lambda>p. createProperty ten p (getField (h ! doc) ''id'') (getField (h ! doc) p) mg)
        (filter (\<lambda>p. getField (h ! doc) p \<noteq> Undefined) props) @
      map (\<lambda>e. createEdge ten e (getField (h ! doc) ''id'') (getField (h ! doc) e) mg)
        (filter (\<lambda>e. getField (h ! doc) e \<noteq> Undefined) edgs)"
  by (simp add: update_returns [OF assms] writes_eq)

subsection \<open>Edges and their data\<close>

lemma filter_isEdge_calls:
  "filter isEdge (map (\<lambda>p. createProperty ten p nd (g p) mg) xs @
                  map (\<lambda>e. createEdge ten e nd (g' e) mg) ys) =
   map (\<lambda>e. createEdge ten e nd (g' e) mg) ys"
  by (simp add: filter_map comp_def)

lemma count_edge_calls:
  "length (filter (\<lambda>c. isEdge c \<and> callType c = p)
     (map (\<lambda>p. createProperty ten p nd (g p) mg) xs @
      map (\<lambda>e. createEdge ten e nd (g' e) mg) ys)) = count_list ys p"
  by (induction ys) (auto simp: filter_map comp_def)

lemma then_promise_Fulfilled_iff:
  "then_promise p f = Some (t, Fulfilled w) \<longleftrightarrow> (\<exists>v. p = Some (t, Fulfilled v) \<and> f v = Inr w)"
  by (auto simp: then_promise_def split: option.splits settled.splits sum.splits prod.splits)

lemma then_promise_Rejected_iff:
  "then_promise p f = Some (t, Rejected e) \<longleftrightarrow>
     p = Some (t, Rejected e) \<or> (\<exists>v. p = Some (t, Fulfilled v) \<and> f v = Inl e)"
  by (auto simp: then_promise_def split: option.splits settled.splits sum.splits prod.splits)

lemma captured_simps:
  "etype (captured e p) = etype e" "target (captured e p) = target e"
  "p = Some (t, Fulfilled v) \<Longrightarrow> data (captured e p) = v"
  by (auto simp: captured_def split: option.splits settled.splits prod.splits)

text \<open>What the handler of line 124 computes, read off the response.\<close>

lemma responseData_Inr_iff:
  "responseData response = Inr v \<longleftrightarrow>
     (\<exists>resp item. response = Obj resp \<and> map_of resp ''Item'' = Some item \<and>
        item \<noteq> Undefined \<and> item \<noteq> Null \<and>
        v = (case item of
               Obj it \<Rightarrow> (case map_of it ''Data'' of Some w \<Rightarrow> w | None \<Rightarrow> Undefined)
             | _ \<Rightarrow> Undefined))"
proof (cases response)
  case (Obj resp)
  show ?thesis
  proof (cases "map_of resp ''Item''")
    case None
    with Obj show ?thesis by (simp add: responseData_def)
  next
    case (Some item)
    with Obj show ?thesis by (cases item) (auto simp: responseData_def)
  qed
qed (simp_all add: responseData_def)

lemma responseData_Inl_iff:
  "responseData response = Inl e \<longleftrightarrow>
     e = TypeError \<and>
     (\<forall>resp item. response = Obj resp \<and> map_of resp ''Item'' = Some item \<longrightarrow>
        item = Undefined \<or> item = Null)"
proof (cases response)
  case (Obj resp)
  show ?thesis
  proof (cases "map_of resp ''Item''")
    case None
    with Obj show ?thesis by (auto simp: responseData_def)
  next
    case (Some item)
    with Obj show ?thesis by (cases item) (auto simp: responseData_def)
  qed
qed (auto simp: responseData_def)

lemma captured_data:
  "data (captured \<lparr>etype = e, target = tg, data = Undefined\<rparr> (then_promise p responseData)) =
     (case p of
        Some (t, Fulfilled (Obj resp)) \<Rightarrow>
          (case map_of resp ''Item'' of
             Some (Obj item) \<Rightarrow> (case map_of item ''Data'' of Some v \<Rightarrow> v | None \<Rightarrow> Undefined)
           | _ \<Rightarrow> Undefined)
      | _ \<Rightarrow> Undefined)"
proof (cases p)
  case None
  then show ?thesis by (simp add: captured_def then_promise_def)
next
  case (Some ts)
  obtain t s where ts: "ts = (t, s)" by (cases ts)
  show ?thesis
  proof (cases s)
    case (Rejected x)
    with Some ts show ?thesis by (simp add: captured_def then_promise_def)
  next
    case (Fulfilled response)
    show ?thesis
    proof (cases "responseData response")
      case (Inl x)
      have l: "data (captured \<lparr>etype = e, target = tg, data = Undefined\<rparr>
                 (then_promise p responseData)) = Undefined"
        using Some ts Fulfilled Inl by (simp add: captured_def then_promise_def)
      from Inl have no: "\<And>resp item. response = Obj resp \<Longrightarrow> map_of resp ''Item'' = Some item \<Longrightarrow>
                item = Undefined \<or> item = Null"
        unfolding responseData_Inl_iff by blast
      show ?thesis
      proof (cases response)
        case (Obj resp)
        show ?thesis
        proof (cases "map_of resp ''Item''")
          case None
          with l Some ts Fulfilled Obj show ?thesis by simp
        next
          case (Some item)
          from no [OF Obj Some] l \<open>p = Some ts\<close> ts Fulfilled Obj Some show ?thesis by auto
        qed
      qed (use l Some ts Fulfilled in simp_all)
    next
      case (Inr v)
      have l: "data (captured \<lparr>etype = e, target = tg, data = Undefined\<rparr>
                 (then_promise p responseData)) = v"
        using Some ts Fulfilled Inr by (simp add: captured_def then_promise_def)
      from Inr obtain resp item where
        r: "response = Obj resp" and i: "map_of resp ''Item'' = Some item" and
        v: "v = (case item of
               Obj it \<Rightarrow> (case map_of it ''Data'' of Some w \<Rightarrow> w | None \<Rightarrow> Undefined)
             | _ \<Rightarrow> Undefined)"
        unfolding responseData_Inr_iff by blast
      from l v Some ts Fulfilled r i show ?thesis
        by (cases item) simp_all
    qed
  qed
qed

subsection \<open>The entries collected by the reduction\<close>

lemma foldl_upd_other:
  "k' \<notin> k ` set es \<Longrightarrow> foldl (\<lambda>m e. m(k e \<mapsto> v e)) m0 es k' = m0 k'"
  by (induction es arbitrary: m0) auto

lemma foldl_upd_mem:
  "k' \<in> k ` set es \<Longrightarrow>
   foldl (\<lambda>m e. m(k e \<mapsto> v e)) m0 es k' = Some (v (last (filter (\<lambda>e. k e = k') es)))"
proof (induction es arbitrary: m0)
  case Nil
  then show ?case by simp
next
  case (Cons e es)
  have step: "foldl (\<lambda>m e. m(k e \<mapsto> v e)) m0 (e # es) k' =
              foldl (\<lambda>m e. m(k e \<mapsto> v e)) (m0(k e \<mapsto> v e)) es k'"
    by (simp only: foldl_Cons)
  show ?case
  proof (cases "k' \<in> k ` set es")
    case True
    then have "filter (\<lambda>e. k e = k') es \<noteq> []"
      by (auto simp: filter_empty_conv)
    then have "last (filter (\<lambda>e. k e = k') (e # es)) = last (filter (\<lambda>e. k e = k') es)"
      by simp
    with Cons.IH [OF True, of "m0(k e \<mapsto> v e)"] step show ?thesis
      by (simp only:)
  next
    case False
    then have "filter (\<lambda>e. k e = k') es = []"
      by (auto simp: filter_empty_conv)
    moreover from False Cons.prems have ke: "k e = k'" by auto
    ultimately have l: "last (filter (\<lambda>e. k e = k') (e # es)) = e"
      by simp
    have "foldl (\<lambda>m e. m(k e \<mapsto> v e)) (m0(k e \<mapsto> v e)) es k' = (m0(k e \<mapsto> v e)) k'"
      by (rule foldl_upd_other [OF False])
    also have "\<dots> = Some (v e)"
      using ke by simp
    finally show ?thesis
      using step l by (simp only:)
  qed
qed

subsection \<open>A fulfilled update\<close>

lemma update_Fulfilled:
  assumes "snd (update drv ten mg props edgs h doc h') = Inr (Some (T, Fulfilled res))"
  shows "getField (h ! doc) ''id'' \<noteq> Undefined \<and>
         (\<exists>vs. fulfilledAll (fst (snd (writes drv ten mg props edgs
                   (getField (h ! doc) ''id'') (h ! doc)))) = Some (T, vs)) \<and>
         res = merged h' doc (getField (h ! doc) ''id'')
                 (snd (snd (writes drv ten mg props edgs (getField (h ! doc) ''id'') (h ! doc))))"
proof -
  have n: "getField (h ! doc) ''id'' \<noteq> Undefined"
    using assms by (auto simp: update_throws)
  from assms show ?thesis
    unfolding update_returns [OF n]
    by (auto simp: n then_promise_Fulfilled_iff Promise_all_Fulfilled_iff)
qed

lemma writes_fulfilled:
  assumes "fulfilledAll (fst (snd (writes drv ten mg props edgs nd d))) = Some (T, vs)"
  shows "(\<forall>p \<in> set (filter (\<lambda>p. getField d p \<noteq> Undefined) props).
            \<exists>t v. drv (createProperty ten p nd (getField d p) mg) = Some (t, Fulfilled v) \<and> t \<le> T)"
    and "(\<forall>e \<in> set (filter (\<lambda>e. getField d e \<noteq> Undefined) edgs).
            \<exists>t v w. drv (createEdge ten e nd (getField d e) mg) = Some (t, Fulfilled v) \<and>
               responseData v = Inr w \<and> t \<le> T)"
proof -
  show "(\<forall>p \<in> set (filter (\<lambda>p. getField d p \<noteq> Undefined) props).
            \<exists>t v. drv (createProperty ten p nd (getField d p) mg) = Some (t, Fulfilled v) \<and> t \<le> T)"
  proof
    fix p assume "p \<in> set (filter (\<lambda>p. getField d p \<noteq> Undefined) props)"
    then have "drv (createProperty ten p nd (getField d p) mg)
       \<in> set (fst (snd (writes drv ten mg props edgs nd d)))"
      by (simp add: writes_eq)
    from fulfilledAll_Some_mem [OF assms this]
    show "\<exists>t v. drv (createProperty ten p nd (getField d p) mg) = Some (t, Fulfilled v) \<and> t \<le> T" .
  qed
  show "(\<forall>e \<in> set (filter (\<lambda>e. getField d e \<noteq> Undefined) edgs).
            \<exists>t v w. drv (createEdge ten e nd (getField d e) mg) = Some (t, Fulfilled v) \<and>
               responseData v = Inr w \<and> t \<le> T)"
  proof
    fix e assume "e \<in> set (filter (\<lambda>e. getField d e \<noteq> Undefined) edgs)"
    then have "then_promise (drv (createEdge ten e nd (getField d e) mg)) responseData
       \<in> set (fst (snd (writes drv ten mg props edgs nd d)))"
      by (simp add: writes_eq)
    from fulfilledAll_Some_mem [OF assms this]
    show "\<exists>t v w. drv (createEdge ten e nd (getField d e) mg) = Some (t, Fulfilled v) \<and>
               responseData v = Inr w \<and> t \<le> T"
      by (auto simp: then_promise_Fulfilled_iff)
  qed
qed

subsection \<open>The example, evaluated\<close>

lemma book_create:
  "create bookOptions =
      Inr (update bookDriver (Str ''cuit'') (Num 4) [''Genre''] [''Author'', ''Likes[]''])"
  by (simp add: create_def bookOptions_def orEmpty_def)

lemma book_fields:
  "getField (bookStore ! 0) ''id'' = Str ''cuix''"
  "getField (bookStore ! 0) ''Genre'' = Str ''Fantasy''"
  "getField (bookStore ! 0) ''Author'' = Str ''cuiv''"
  "getField (bookStore ! 0) ''Likes[]'' = Undefined"
  by (simp_all add: bookStore_def getField_def inherited_def objectPrototypeMember_def)

lemma book_writes:
  "writes bookDriver (Str ''cuit'') (Num 4) [''Genre''] [''Author'', ''Likes[]'']
     (Str ''cuix'') (bookStore ! 0) =
   ([createProperty (Str ''cuit'') ''Genre'' (Str ''cuix'') (Str ''Fantasy'') (Num 4),
     createEdge (Str ''cuit'') ''Author'' (Str ''cuix'') (Str ''cuiv'') (Num 4)],
    [Some (0, Fulfilled Undefined),
     Some (1, Fulfilled (Obj [(''Item'', Obj [(''Data'', Str ''Fantasy'')])])),
     Some (2, Fulfilled (Str ''Brandon Sanderson''))],
    [\<lparr>etype = ''Author'', target = Str ''cuiv'', data = Str ''Brandon Sanderson''\<rparr>])"
  by (simp add: writes_eq book_fields bookDriver_def Promise_resolve_def
        then_promise_def responseData_def captured_def)

lemma book_update:
  "update bookDriver (Str ''cuit'') (Num 4) [''Genre''] [''Author'', ''Likes[]'']
     bookStore 0 bookStore =
   ([createProperty (Str ''cuit'') ''Genre'' (Str ''cuix'') (Str ''Fantasy'') (Num 4),
     createEdge (Str ''cuit'') ''Author'' (Str ''cuix'') (Str ''cuiv'') (Num 4)],
    Inr (Some (2, Fulfilled (merged bookStore 0 (Str ''cuix'')
      [\<lparr>etype = ''Author'', target = Str ''cuiv'', data = Str ''Brandon Sanderson''\<rparr>]))))"
proof -
  have "getField (bookStore ! 0) ''id'' \<noteq> Undefined"
    by (simp add: book_fields)
  from update_returns [OF this] show ?thesis
    by (simp add: book_fields book_writes Promise_all_def then_promise_def)
qed

subsection \<open>Validation\<close>

lemma callNode_calls:
  "c \<in> set (map (\<lambda>p. createProperty ten p nd (g p) mg) xs @
             map (\<lambda>e. createEdge ten e nd (g' e) mg) ys) \<Longrightarrow> callNode c = nd"
  by auto

lemma create_cases:
  "create opts =
     (if db opts = None then Inl (Error ''DB driver is undefined'')
      else if type opts = Undefined then Inl (Error ''Type is undefined'')
      else if key opts = Undefined then Inl (Error ''Key is undefined'')
      else if maxGSIK opts = Undefined then Inl (Error ''Max GSIK is undefined'')
      else Inr (update (the (db opts)) (tenant opts) (maxGSIK opts)
                  (orEmpty (properties opts)) (orEmpty (edges opts))))"
  by (simp add: create_def split: option.splits)

subsection \<open>A rejected update\<close>

lemma responseData_Inl:
  "responseData response = Inl e \<Longrightarrow> e = TypeError"
  by (cases response; cases "getProp response ''Item''")
     (auto simp: responseData_def split: sum.splits elim: getProp.elims)

lemma rejected_call_in_promises:
  assumes "c \<in> set (fst (writes drv ten mg props edgs nd d))"
    and "drv c = Some (t, Rejected e)"
  shows "Some (t, Rejected e) \<in> set (fst (snd (writes drv ten mg props edgs nd d)))"
  using assms by (auto simp: writes_eq then_promise_def image_iff)

lemma thrown_handler_in_promises:
  assumes "c \<in> set (fst (writes drv ten mg props edgs nd d))"
    and "responseData response = Inl x"
    and "isEdge c"
    and "drv c = Some (t, Fulfilled response)"
  shows "Some (t, Rejected x) \<in> set (fst (snd (writes drv ten mg props edgs nd d)))"
proof -
  from assms(1,3) obtain ed where
    ed: "ed \<in> set (filter (\<lambda>e. getField d e \<noteq> Undefined) edgs)" and
    c: "c = createEdge ten ed nd (getField d ed) mg"
    by (auto simp: writes_eq)
  have "then_promise (drv (createEdge ten ed nd (getField d ed) mg)) responseData =
          Some (t, Rejected x)"
    using assms(2,4) by (simp add: c then_promise_def)
  with ed show ?thesis
    by (force simp: writes_eq)
qed

lemma rejection_in_promises_is_a_write:
  assumes "Some (t, Rejected e) \<in> set (fst (snd (writes drv ten mg props edgs nd d)))"
  shows "\<exists>c \<in> set (fst (writes drv ten mg props edgs nd d)).
           drv c = Some (t, Rejected e) \<or>
           (isEdge c \<and> e = TypeError \<and>
            (\<exists>response. drv c = Some (t, Fulfilled response) \<and>
               responseData response = Inl TypeError))"
proof -
  from assms consider
      (property) p where "p \<in> set (filter (\<lambda>p. getField d p \<noteq> Undefined) props)"
        "drv (createProperty ten p nd (getField d p) mg) = Some (t, Rejected e)"
    | (edg) x where "x \<in> set (filter (\<lambda>e. getField d e \<noteq> Undefined) edgs)"
        "then_promise (drv (createEdge ten x nd (getField d x) mg)) responseData
           = Some (t, Rejected e)"
    by (auto simp: writes_eq Promise_resolve_def)
  then show ?thesis
  proof cases
    case property
    then have "createProperty ten p nd (getField d p) mg
        \<in> set (fst (writes drv ten mg props edgs nd d))"
      by (simp add: writes_eq)
    with property(2) show ?thesis by blast
  next
    case edg
    then have m: "createEdge ten x nd (getField d x) mg
        \<in> set (fst (writes drv ten mg props edgs nd d))"
      by (simp add: writes_eq)
    from edg(2) consider
        "drv (createEdge ten x nd (getField d x) mg) = Some (t, Rejected e)"
      | response where "drv (createEdge ten x nd (getField d x) mg) = Some (t, Fulfilled response)"
          "responseData response = Inl e"
      by (auto simp: then_promise_Rejected_iff)
    then show ?thesis
    proof cases
      case 1
      with m show ?thesis by blast
    next
      case 2
      from responseData_Inl [OF 2(2)] have "e = TypeError" .
      with 2 m show ?thesis
        by (intro bexI [of _ "createEdge ten x nd (getField d x) mg"]) auto
    qed
  qed
qed

lemma update_Rejected_iff:
  assumes "getField (h ! doc) ''id'' \<noteq> Undefined"
  shows "snd (update drv ten mg props edgs h doc h') = Inr (Some (t, Rejected e)) \<longleftrightarrow>
         firstRejection (fst (snd (writes drv ten mg props edgs
            (getField (h ! doc) ''id'') (h ! doc)))) = Some (t, e)"
  unfolding update_returns [OF assms]
  by (simp add: then_promise_Rejected_iff Promise_all_Rejected_iff)

lemma update_writes:
  assumes "getField (h ! doc) ''id'' \<noteq> Undefined"
  shows "fst (update drv ten mg props edgs h doc h') =
         fst (writes drv ten mg props edgs (getField (h ! doc) ''id'') (h ! doc))"
  by (simp add: update_returns [OF assms])

subsection \<open>The time of fulfilment\<close>

lemma fulfilledAll_time:
  "fulfilledAll ps = Some (T, vs) \<Longrightarrow> T = 0 \<or> (\<exists>v. Some (T, Fulfilled v) \<in> set ps)"
proof (induction ps arbitrary: T vs)
  case Nil
  then show ?case by simp
next
  case (Cons p ps)
  from Cons.prems obtain t v T' vs' where
    p: "p = Some (t, Fulfilled v)" and r: "fulfilledAll ps = Some (T', vs')" and
    T: "T = max t T'"
    by (auto split: option.splits settled.splits prod.splits)
  from Cons.IH [OF r] p T show ?case
    by (auto simp: max_def)
qed

lemma fulfilled_promise_is_a_write:
  assumes "Some (t, Fulfilled v) \<in> set (fst (snd (writes drv ten mg props edgs nd d)))"
  shows "t = 0 \<or> (\<exists>c \<in> set (fst (writes drv ten mg props edgs nd d)).
           \<exists>w. drv c = Some (t, Fulfilled w))"
proof -
  from assms consider
      (start) "t = 0"
    | (property) p where "p \<in> set (filter (\<lambda>p. getField d p \<noteq> Undefined) props)"
        "drv (createProperty ten p nd (getField d p) mg) = Some (t, Fulfilled v)"
    | (edg) x where "x \<in> set (filter (\<lambda>e. getField d e \<noteq> Undefined) edgs)"
        "then_promise (drv (createEdge ten x nd (getField d x) mg)) responseData
           = Some (t, Fulfilled v)"
    by (auto simp: writes_eq Promise_resolve_def)
  then show ?thesis
  proof cases
    case start
    then show ?thesis by simp
  next
    case property
    then have "createProperty ten p nd (getField d p) mg
        \<in> set (fst (writes drv ten mg props edgs nd d))"
      by (simp add: writes_eq)
    with property(2) show ?thesis by blast
  next
    case edg
    then have "createEdge ten x nd (getField d x) mg
        \<in> set (fst (writes drv ten mg props edgs nd d))"
      by (simp add: writes_eq)
    moreover from edg(2) have
      "\<exists>w. drv (createEdge ten x nd (getField d x) mg) = Some (t, Fulfilled w)"
      by (auto simp: then_promise_Fulfilled_iff)
    ultimately show ?thesis by blast
  qed
qed

subsection \<open>The example with the failing driver\<close>

lemma failing_create:
  "create (bookOptions\<lparr>db := Some failingDriver\<rparr>) =
      Inr (update failingDriver (Str ''cuit'') (Num 4) [''Genre''] [''Author'', ''Likes[]''])"
  by (simp add: create_def bookOptions_def orEmpty_def)

lemma book_calls:
  "fst (update drv (Str ''cuit'') (Num 4) [''Genre''] [''Author'', ''Likes[]'']
          bookStore 0 h') =
   [createProperty (Str ''cuit'') ''Genre'' (Str ''cuix'') (Str ''Fantasy'') (Num 4),
    createEdge (Str ''cuit'') ''Author'' (Str ''cuix'') (Str ''cuiv'') (Num 4)]"
proof -
  have "getField (bookStore ! 0) ''id'' \<noteq> Undefined"
    by (simp add: book_fields)
  from update_calls [OF this] show ?thesis
    by (simp add: book_fields)
qed

section \<open>The claims\<close>

text \<open>
  In all that follows \<open>h\<close> is the store when the update function is called, \<open>doc\<close> the
  address of the document, and \<open>h'\<close> the store when the writes have been fulfilled; a
  caller that leaves the document alone in between has \<open>h' ! doc = h ! doc\<close>.
\<close>

text \<open>
  C1. For every configuration and every document with a node id, the
  \<^verbatim>\<open>createProperty\<close> calls of Document Update are, in order, one call for each listed
  property name \<open>p\<close> whose value \<open>d[p]\<close> in the document is not \<^verbatim>\<open>undefined\<close>, made with
  the configured tenant and maxGSIK, the node id of the document as node, \<open>p\<close> as type and
  \<open>d[p]\<close> as data. Hence the number of \<^verbatim>\<open>createProperty\<close> calls of type \<open>p\<close> is the
  number of times \<open>p\<close> is listed if \<open>d[p]\<close> is defined and zero otherwise; with a list
  free of repetitions it is exactly one for a listed name present in the document, and
  zero for a name that is absent from the document or not listed.
\<close>

theorem C1_one_createProperty_per_present_property:
  assumes "create opts = Inr f"
    and "getField (h ! doc) ''id'' \<noteq> Undefined"
  shows
    "filter isProperty (fst (f h doc h')) =
       map (\<lambda>p. createProperty (tenant opts) p (getField (h ! doc) ''id'')
                   (getField (h ! doc) p) (maxGSIK opts))
         (filter (\<lambda>p. getField (h ! doc) p \<noteq> Undefined) (orEmpty (properties opts)))
     \<and> (\<forall>p. length (filter (\<lambda>c. isProperty c \<and> callType c = p) (fst (f h doc h'))) =
            (if getField (h ! doc) p \<noteq> Undefined
             then count_list (orEmpty (properties opts)) p else 0))
     \<and> (distinct (orEmpty (properties opts)) \<longrightarrow>
          (\<forall>p. length (filter (\<lambda>c. isProperty c \<and> callType c = p) (fst (f h doc h'))) =
            (if p \<in> set (orEmpty (properties opts)) \<and> getField (h ! doc) p \<noteq> Undefined
             then 1 else 0)))"
proof -
  from create_Inr [OF assms(1)] obtain drv where
    f: "f = update drv (tenant opts) (maxGSIK opts)
              (orEmpty (properties opts)) (orEmpty (edges opts))"
    by blast
  note calls = update_calls [OF assms(2), of drv "tenant opts" "maxGSIK opts"
      "orEmpty (properties opts)" "orEmpty (edges opts)" h', folded f]
  have a: "filter isProperty (fst (f h doc h')) =
       map (\<lambda>p. createProperty (tenant opts) p (getField (h ! doc) ''id'')
                   (getField (h ! doc) p) (maxGSIK opts))
         (filter (\<lambda>p. getField (h ! doc) p \<noteq> Undefined) (orEmpty (properties opts)))"
    unfolding calls by (rule filter_isProperty_calls)
  have b: "length (filter (\<lambda>c. isProperty c \<and> callType c = p) (fst (f h doc h'))) =
            (if getField (h ! doc) p \<noteq> Undefined
             then count_list (orEmpty (properties opts)) p else 0)" for p
    unfolding calls count_property_calls by (simp add: count_list_filter)
  have c: "length (filter (\<lambda>c. isProperty c \<and> callType c = p) (fst (f h doc h'))) =
            (if p \<in> set (orEmpty (properties opts)) \<and> getField (h ! doc) p \<noteq> Undefined
             then 1 else 0)" if "distinct (orEmpty (properties opts))" for p
    using that by (simp add: b count_list_distinct)
  from a b c show ?thesis by blast
qed

text \<open>On the example: one call, for \<^verbatim>\<open>Genre\<close>.\<close>

theorem C1_witness:
  "filter isProperty
     (fst (update bookDriver (Str ''cuit'') (Num 4) [''Genre''] [''Author'', ''Likes[]'']
             bookStore 0 bookStore)) =
     [createProperty (Str ''cuit'') ''Genre'' (Str ''cuix'') (Str ''Fantasy'') (Num 4)]
   \<and> length (filter (\<lambda>c. isProperty c \<and> callType c = ''Genre'')
       (fst (update bookDriver (Str ''cuit'') (Num 4) [''Genre''] [''Author'', ''Likes[]'']
             bookStore 0 bookStore))) = 1"
proof -
  have c: "create bookOptions =
      Inr (update bookDriver (Str ''cuit'') (Num 4) [''Genre''] [''Author'', ''Likes[]''])"
    by (simp add: create_def bookOptions_def orEmpty_def)
  have n: "getField (bookStore ! 0) ''id'' \<noteq> Undefined"
    by (simp add: book_fields)
  have d: "distinct (orEmpty (properties bookOptions))"
    by (simp add: bookOptions_def orEmpty_def)
  from C1_one_createProperty_per_present_property [OF c n, of bookStore] d
  show ?thesis
    by (simp add: bookOptions_def orEmpty_def book_fields)
qed

text \<open>
  C2. For every configuration and every document with a node id, the \<^verbatim>\<open>createEdge\<close>
  calls of Document Update are, in order, one call for each listed edge name \<open>e\<close> whose
  value \<open>d[e]\<close> in the document is not \<^verbatim>\<open>undefined\<close>, made with the configured tenant
  and maxGSIK, the node id of the document as node, \<open>e\<close> as type and \<open>d[e]\<close> as target
  (exactly one call for a listed name present in the document, when the list has no
  repetition, and none for another name).
  The entries of \<^verbatim>\<open>edgeMap\<close> correspond to these calls one to one, and the data of an
  entry is read off the response with which its call was fulfilled: the value found under
  \<^verbatim>\<open>Data\<close> in the object found under \<^verbatim>\<open>Item\<close> in the response (and
  \<^verbatim>\<open>undefined\<close> when the call is not fulfilled or the response has no such object).
\<close>

theorem C2_one_createEdge_per_present_edge:
  assumes "create opts = Inr f"
    and "db opts = Some drv"
    and "getField (h ! doc) ''id'' \<noteq> Undefined"
  shows
    "filter isEdge (fst (f h doc h')) =
       map (\<lambda>e. createEdge (tenant opts) e (getField (h ! doc) ''id'')
                   (getField (h ! doc) e) (maxGSIK opts))
         (filter (\<lambda>e. getField (h ! doc) e \<noteq> Undefined) (orEmpty (edges opts)))
     \<and> (\<forall>e. length (filter (\<lambda>c. isEdge c \<and> callType c = e) (fst (f h doc h'))) =
            (if getField (h ! doc) e \<noteq> Undefined
             then count_list (orEmpty (edges opts)) e else 0))
     \<and> (distinct (orEmpty (edges opts)) \<longrightarrow>
          (\<forall>e. length (filter (\<lambda>c. isEdge c \<and> callType c = e) (fst (f h doc h'))) =
            (if e \<in> set (orEmpty (edges opts)) \<and> getField (h ! doc) e \<noteq> Undefined
             then 1 else 0)))
     \<and> list_all2
         (\<lambda>entry e. etype entry = e \<and> target entry = getField (h ! doc) e \<and>
            data entry =
              (case drv (createEdge (tenant opts) e (getField (h ! doc) ''id'')
                           (getField (h ! doc) e) (maxGSIK opts)) of
                 Some (t, Fulfilled (Obj response)) \<Rightarrow>
                   (case map_of response ''Item'' of
                      Some (Obj item) \<Rightarrow>
                        (case map_of item ''Data'' of Some v \<Rightarrow> v | None \<Rightarrow> Undefined)
                    | _ \<Rightarrow> Undefined)
               | _ \<Rightarrow> Undefined))
         (snd (snd (writes drv (tenant opts) (maxGSIK opts) (orEmpty (properties opts))
                      (orEmpty (edges opts)) (getField (h ! doc) ''id'') (h ! doc))))
         (filter (\<lambda>e. getField (h ! doc) e \<noteq> Undefined) (orEmpty (edges opts)))"
proof -
  from create_Inr [OF assms(1)] assms(2) have
    f: "f = update drv (tenant opts) (maxGSIK opts)
              (orEmpty (properties opts)) (orEmpty (edges opts))"
    by auto
  note calls = update_calls [OF assms(3), of drv "tenant opts" "maxGSIK opts"
      "orEmpty (properties opts)" "orEmpty (edges opts)" h', folded f]
  have a: "filter isEdge (fst (f h doc h')) =
       map (\<lambda>e. createEdge (tenant opts) e (getField (h ! doc) ''id'')
                   (getField (h ! doc) e) (maxGSIK opts))
         (filter (\<lambda>e. getField (h ! doc) e \<noteq> Undefined) (orEmpty (edges opts)))"
    unfolding calls by (rule filter_isEdge_calls)
  have b: "length (filter (\<lambda>c. isEdge c \<and> callType c = e) (fst (f h doc h'))) =
            (if getField (h ! doc) e \<noteq> Undefined
             then count_list (orEmpty (edges opts)) e else 0)" for e
    unfolding calls count_edge_calls by (simp add: count_list_filter)
  have c: "list_all2
         (\<lambda>entry e. etype entry = e \<and> target entry = getField (h ! doc) e \<and>
            data entry =
              (case drv (createEdge (tenant opts) e (getField (h ! doc) ''id'')
                           (getField (h ! doc) e) (maxGSIK opts)) of
                 Some (t, Fulfilled (Obj response)) \<Rightarrow>
                   (case map_of response ''Item'' of
                      Some (Obj item) \<Rightarrow>
                        (case map_of item ''Data'' of Some v \<Rightarrow> v | None \<Rightarrow> Undefined)
                    | _ \<Rightarrow> Undefined)
               | _ \<Rightarrow> Undefined))
         (snd (snd (writes drv (tenant opts) (maxGSIK opts) (orEmpty (properties opts))
                      (orEmpty (edges opts)) (getField (h ! doc) ''id'') (h ! doc))))
         (filter (\<lambda>e. getField (h ! doc) e \<noteq> Undefined) (orEmpty (edges opts)))"
    by (simp add: writes_eq list_all2_map1 list_all2_same captured_simps(1,2)
          captured_data)
  have b': "length (filter (\<lambda>c. isEdge c \<and> callType c = e) (fst (f h doc h'))) =
            (if e \<in> set (orEmpty (edges opts)) \<and> getField (h ! doc) e \<noteq> Undefined
             then 1 else 0)" if "distinct (orEmpty (edges opts))" for e
    using that by (simp add: b count_list_distinct)
  from a b b' c show ?thesis by blast
qed

text \<open>On the example: one call, for \<^verbatim>\<open>Author\<close>, whose entry holds the author's data.\<close>

theorem C2_witness:
  "filter isEdge
     (fst (update bookDriver (Str ''cuit'') (Num 4) [''Genre''] [''Author'', ''Likes[]'']
             bookStore 0 bookStore)) =
     [createEdge (Str ''cuit'') ''Author'' (Str ''cuix'') (Str ''cuiv'') (Num 4)]
   \<and> map data (snd (snd (writes bookDriver (Str ''cuit'') (Num 4) [''Genre'']
        [''Author'', ''Likes[]''] (Str ''cuix'') (bookStore ! 0)))) = [Str ''Brandon Sanderson'']"
proof -
  have c: "create bookOptions =
      Inr (update bookDriver (Str ''cuit'') (Num 4) [''Genre''] [''Author'', ''Likes[]''])"
    by (simp add: create_def bookOptions_def orEmpty_def)
  have d: "db bookOptions = Some bookDriver"
    by (simp add: bookOptions_def)
  have n: "getField (bookStore ! 0) ''id'' \<noteq> Undefined"
    by (simp add: book_fields)
  from C2_one_createEdge_per_present_edge [OF c d n, of bookStore]
  show ?thesis
    by (auto simp: bookOptions_def orEmpty_def book_fields bookDriver_def
          list_all2_Cons2)
qed

text \<open>
  C3, as the claim states it, fails for a document with an own property \<^verbatim>\<open>__proto__\<close>,
  such as \<^verbatim>\<open>JSON.parse\<close> returns. \<^verbatim>\<open>Object.assign\<close> does not copy that property: it
  assigns it, which runs the setter inherited from \<^verbatim>\<open>Object.prototype\<close>. The
  document at address 0 of the parsed store has \<^verbatim>\<open>__proto__\<close> with the value 5; the
  update succeeds, and its result has no such property: the key does not keep its value.
\<close>

theorem C3_counterexample:
  "documentUpdate bookOptions parsedStore 0 parsedStore =
     ([createEdge (Str ''cuit'') ''Author'' (Str ''cuix'') (Str ''cuiv'') (Num 4)],
      Inr (Some (2, Fulfilled (2,
        parsedStore @
        [\<lparr>own = [(''id'', Str ''cuix''), (''Author'', Str ''cuiv''),
                 (''@Author'', Str ''Brandon Sanderson'')],
          proto = ObjectPrototype\<rparr>,
         \<lparr>own = [], proto = ObjectPrototype\<rparr>,
         \<lparr>own = [(''@Author'', Str ''Brandon Sanderson'')], proto = ObjectPrototype\<rparr>,
         \<lparr>own = [(''@Author'', Str ''Brandon Sanderson'')], proto = ObjectPrototype\<rparr>]))))
   \<and> map_of (own (parsedStore ! 0)) ''__proto__'' = Some (Num 5)
   \<and> getField (parsedStore ! 0) ''__proto__'' = Num 5
   \<and> map_of (own \<lparr>own = [(''id'', Str ''cuix''), (''Author'', Str ''cuiv''),
                 (''@Author'', Str ''Brandon Sanderson'')],
          proto = ObjectPrototype\<rparr>) ''__proto__'' = None
   \<and> getField \<lparr>own = [(''id'', Str ''cuix''), (''Author'', Str ''cuiv''),
                 (''@Author'', Str ''Brandon Sanderson'')],
          proto = ObjectPrototype\<rparr> ''__proto__'' = ObjectPrototype"
  by code_simp

text \<open>
  C3, amended. When the promise of Document Update is fulfilled, its value is a new
  object. Its own properties are those of \<^verbatim>\<open>{id: node}\<close>, overwritten by the own
  properties of the document other than \<^verbatim>\<open>__proto__\<close>, overwritten by one
  \<^verbatim>\<open>@<type>\<close> entry for each entry of \<^verbatim>\<open>edgeMap\<close>. An own \<^verbatim>\<open>__proto__\<close> of the
  document is not copied: if its value is an object or \<^verbatim>\<open>null\<close> it becomes the
  prototype of the result, and any other value is dropped. There is one entry of
  \<^verbatim>\<open>edgeMap\<close> for each listed edge name present in the document; its call was
  fulfilled with a response that has an \<^verbatim>\<open>Item\<close>, and its data is what that
  \<^verbatim>\<open>Item\<close> has under \<^verbatim>\<open>Data\<close>; it is the value found under \<^verbatim>\<open>@<type>\<close> in the
  result (of the last entry of that type, should the list of edges repeat a name). Every
  own key of the document other than \<^verbatim>\<open>__proto__\<close> that is not such an \<^verbatim>\<open>@<type>\<close>
  key has in the result the value it has in the document.
\<close>

theorem C3_result_is_document_assigned_with_edge_data:
  assumes "create opts = Inr f"
    and "db opts = Some drv"
    and "doc < length h'"
    and "snd (f h doc h') = Inr (Some (T, Fulfilled (r, hr)))"
  shows
    "map_of (own (hr ! r)) =
       [''id'' \<mapsto> getField (h ! doc) ''id''] ++
       (map_of (own (h' ! doc)))(''__proto__'' := None) ++
       foldl (\<lambda>m entry. m(''@'' @ etype entry \<mapsto> data entry)) Map.empty
         (snd (snd (writes drv (tenant opts) (maxGSIK opts) (orEmpty (properties opts))
                      (orEmpty (edges opts)) (getField (h ! doc) ''id'') (h ! doc))))
     \<and> proto (hr ! r) =
         (case map_of (own (h' ! doc)) ''__proto__'' of
            Some v \<Rightarrow> if isObjectOrNull v then v else ObjectPrototype
          | None \<Rightarrow> ObjectPrototype)
     \<and> list_all2
         (\<lambda>entry e. etype entry = e \<and>
            (\<exists>t response item.
               drv (createEdge (tenant opts) e (getField (h ! doc) ''id'')
                      (getField (h ! doc) e) (maxGSIK opts))
                 = Some (t, Fulfilled (Obj response)) \<and>
               map_of response ''Item'' = Some item \<and> item \<noteq> Undefined \<and> item \<noteq> Null \<and>
               data entry =
                 (case item of
                    Obj it \<Rightarrow> (case map_of it ''Data'' of Some v \<Rightarrow> v | None \<Rightarrow> Undefined)
                  | _ \<Rightarrow> Undefined)))
         (snd (snd (writes drv (tenant opts) (maxGSIK opts) (orEmpty (properties opts))
                      (orEmpty (edges opts)) (getField (h ! doc) ''id'') (h ! doc))))
         (filter (\<lambda>e. getField (h ! doc) e \<noteq> Undefined) (orEmpty (edges opts)))
     \<and> (\<forall>e. e \<in> set (orEmpty (edges opts)) \<and> getField (h ! doc) e \<noteq> Undefined \<longrightarrow>
            map_of (own (hr ! r)) (''@'' @ e) =
              Some (data (last (filter (\<lambda>entry. etype entry = e)
                (snd (snd (writes drv (tenant opts) (maxGSIK opts) (orEmpty (properties opts))
                      (orEmpty (edges opts)) (getField (h ! doc) ''id'') (h ! doc))))))))
     \<and> (\<forall>k v. map_of (own (h' ! doc)) k = Some v \<and> k \<noteq> ''__proto__'' \<and>
            k \<notin> (\<lambda>e. ''@'' @ e) `
                  set (filter (\<lambda>e. getField (h ! doc) e \<noteq> Undefined) (orEmpty (edges opts))) \<longrightarrow>
            map_of (own (hr ! r)) k = Some v \<and> getField (hr ! r) k = v)"
proof -
  let ?nd = "getField (h ! doc) ''id''"
  let ?es = "snd (snd (writes drv (tenant opts) (maxGSIK opts) (orEmpty (properties opts))
                      (orEmpty (edges opts)) ?nd (h ! doc)))"
  let ?E = "filter (\<lambda>e. getField (h ! doc) e \<noteq> Undefined) (orEmpty (edges opts))"
  let ?acc = "foldl (\<lambda>m entry. m(''@'' @ etype entry \<mapsto> data entry)) Map.empty ?es"
  from create_Inr [OF assms(1)] assms(2) have
    f: "f = update drv (tenant opts) (maxGSIK opts)
              (orEmpty (properties opts)) (orEmpty (edges opts))"
    by auto
  from update_Fulfilled [OF assms(4) [unfolded f]] obtain vs where
    n: "?nd \<noteq> Undefined" and
    ful: "fulfilledAll (fst (snd (writes drv (tenant opts) (maxGSIK opts)
            (orEmpty (properties opts)) (orEmpty (edges opts)) ?nd (h ! doc)))) = Some (T, vs)" and
    res: "(r, hr) = merged h' doc ?nd ?es"
    by blast
  from merged_eq [OF assms(3), of ?nd ?es] res obtain x ext where
    r: "r = length h'" and hr: "hr = h' @ x # ext" and
    ox: "map_of (own x) =
           [''id'' \<mapsto> ?nd] ++ (map_of (own (h' ! doc)))(''__proto__'' := None) ++ ?acc" and
    px: "proto x =
           (case map_of (own (h' ! doc)) ''__proto__'' of
              Some v \<Rightarrow> if isObjectOrNull v then v else ObjectPrototype
            | None \<Rightarrow> ObjectPrototype)"
    by auto
  have x: "hr ! r = x"
    by (simp add: r hr)
  have a: "map_of (own (hr ! r)) =
       [''id'' \<mapsto> ?nd] ++ (map_of (own (h' ! doc)))(''__proto__'' := None) ++ ?acc"
    by (simp only: x ox)
  have p: "proto (hr ! r) =
         (case map_of (own (h' ! doc)) ''__proto__'' of
            Some v \<Rightarrow> if isObjectOrNull v then v else ObjectPrototype
          | None \<Rightarrow> ObjectPrototype)"
    by (simp only: x px)
  have types: "map etype ?es = ?E"
    by (simp add: writes_eq comp_def captured_simps)
  have b: "list_all2
         (\<lambda>entry e. etype entry = e \<and>
            (\<exists>t response item.
               drv (createEdge (tenant opts) e ?nd (getField (h ! doc) e) (maxGSIK opts))
                 = Some (t, Fulfilled (Obj response)) \<and>
               map_of response ''Item'' = Some item \<and> item \<noteq> Undefined \<and> item \<noteq> Null \<and>
               data entry =
                 (case item of
                    Obj it \<Rightarrow> (case map_of it ''Data'' of Some v \<Rightarrow> v | None \<Rightarrow> Undefined)
                  | _ \<Rightarrow> Undefined))) ?es ?E"
  proof -
    have "\<exists>t response item.
               drv (createEdge (tenant opts) e ?nd (getField (h ! doc) e) (maxGSIK opts))
                 = Some (t, Fulfilled (Obj response)) \<and>
               map_of response ''Item'' = Some item \<and> item \<noteq> Undefined \<and> item \<noteq> Null \<and>
               data (captured \<lparr>etype = e, target = getField (h ! doc) e, data = Undefined\<rparr>
                       (then_promise
                          (drv (createEdge (tenant opts) e ?nd (getField (h ! doc) e)
                                  (maxGSIK opts))) responseData)) =
                 (case item of
                    Obj it \<Rightarrow> (case map_of it ''Data'' of Some v \<Rightarrow> v | None \<Rightarrow> Undefined)
                  | _ \<Rightarrow> Undefined)"
      if "e \<in> set ?E" for e
    proof -
      from writes_fulfilled(2) [OF ful] that obtain t v w where
        d: "drv (createEdge (tenant opts) e ?nd (getField (h ! doc) e) (maxGSIK opts))
              = Some (t, Fulfilled v)" and
        w: "responseData v = Inr w"
        by blast
      from w obtain response item where
        v: "v = Obj response" and i: "map_of response ''Item'' = Some item" and
        ne: "item \<noteq> Undefined" "item \<noteq> Null" and
        wv: "w = (case item of
                    Obj it \<Rightarrow> (case map_of it ''Data'' of Some v \<Rightarrow> v | None \<Rightarrow> Undefined)
                  | _ \<Rightarrow> Undefined)"
        unfolding responseData_Inr_iff by blast
      have "data (captured \<lparr>etype = e, target = getField (h ! doc) e, data = Undefined\<rparr>
                       (then_promise
                          (drv (createEdge (tenant opts) e ?nd (getField (h ! doc) e)
                                  (maxGSIK opts))) responseData)) = w"
        by (simp add: d w captured_def then_promise_def)
      with d v i ne wv show ?thesis by blast
    qed
    then show ?thesis
      by (simp add: writes_eq list_all2_map1 list_all2_same captured_simps(1))
  qed
  have keys: "(\<lambda>entry. ''@'' @ etype entry) ` set ?es = (\<lambda>e. ''@'' @ e) ` set ?E"
    using types by (metis image_image set_map)
  have c: "map_of (own (hr ! r)) (''@'' @ e) =
              Some (data (last (filter (\<lambda>entry. etype entry = e) ?es)))"
    if "e \<in> set (orEmpty (edges opts)) \<and> getField (h ! doc) e \<noteq> Undefined" for e
  proof -
    from that have "''@'' @ e \<in> (\<lambda>entry. ''@'' @ etype entry) ` set ?es"
      unfolding keys by simp
    from foldl_upd_mem [OF this, of data Map.empty]
    show ?thesis by (simp add: a map_add_def)
  qed
  have d: "map_of (own (hr ! r)) k = Some v \<and> getField (hr ! r) k = v"
    if "map_of (own (h' ! doc)) k = Some v \<and> k \<noteq> ''__proto__'' \<and>
        k \<notin> (\<lambda>e. ''@'' @ e) ` set ?E" for k v
  proof -
    from that have "k \<notin> (\<lambda>entry. ''@'' @ etype entry) ` set ?es"
      unfolding keys by simp
    from foldl_upd_other [OF this, of data Map.empty] that
    have "map_of (own (hr ! r)) k = Some v"
      by (simp add: a map_add_def)
    then show ?thesis by (simp add: getField_def)
  qed
  from a p b c d show ?thesis by blast
qed

text \<open>
  On the example of the documentation: the result shown there, with \<^verbatim>\<open>@Author\<close>
  added, no entry for the absent \<^verbatim>\<open>Likes[]\<close>, and the prototype of a literal.
\<close>

theorem C3_witness:
  "\<exists>T r hr.
     snd (update bookDriver (Str ''cuit'') (Num 4) [''Genre''] [''Author'', ''Likes[]'']
            bookStore 0 bookStore) = Inr (Some (T, Fulfilled (r, hr))) \<and>
     map (map_of (own (hr ! r)))
       [''id'', ''Name'', ''Genre'', ''Author'', ''@Author'', ''Likes[]''] =
       [Some (Str ''cuix''), Some (Str ''Elantris''), Some (Str ''Fantasy''),
        Some (Str ''cuiv''), Some (Str ''Brandon Sanderson''), None] \<and>
     proto (hr ! r) = ObjectPrototype"
proof -
  let ?res = "merged bookStore 0 (Str ''cuix'')
      [\<lparr>etype = ''Author'', target = Str ''cuiv'', data = Str ''Brandon Sanderson''\<rparr>]"
  have d: "db bookOptions = Some bookDriver"
    by (simp add: bookOptions_def)
  have l: "0 < length bookStore"
    by (simp add: bookStore_def)
  have s: "snd (update bookDriver (Str ''cuit'') (Num 4) [''Genre''] [''Author'', ''Likes[]'']
            bookStore 0 bookStore) = Inr (Some (2, Fulfilled (fst ?res, snd ?res)))"
    by (simp add: book_update)
  note C3 = C3_result_is_document_assigned_with_edge_data [OF book_create d l s]
  from C3 have o: "map_of (own (snd ?res ! fst ?res)) =
       [''id'' \<mapsto> Str ''cuix''] ++ (map_of (own (bookStore ! 0)))(''__proto__'' := None) ++
       [''@Author'' \<mapsto> Str ''Brandon Sanderson'']"
    by (simp add: book_fields bookOptions_def orEmpty_def book_writes)
  from C3 have p: "proto (snd ?res ! fst ?res) =
         (case map_of (own (bookStore ! 0)) ''__proto__'' of
            Some v \<Rightarrow> if isObjectOrNull v then v else ObjectPrototype
          | None \<Rightarrow> ObjectPrototype)"
    by blast
  have m: "map (map_of (own (snd ?res ! fst ?res)))
       [''id'', ''Name'', ''Genre'', ''Author'', ''@Author'', ''Likes[]''] =
       [Some (Str ''cuix''), Some (Str ''Elantris''), Some (Str ''Fantasy''),
        Some (Str ''cuiv''), Some (Str ''Brandon Sanderson''), None] \<and>
     proto (snd ?res ! fst ?res) = ObjectPrototype"
    unfolding o p by (simp add: bookStore_def map_add_def)
  show ?thesis
    by (rule exI [of _ 2], rule exI [of _ "fst ?res"], rule exI [of _ "snd ?res"])
       (rule conjI [OF s m])
qed

text \<open>
  C4, as the claim states it, fails: the update function never looks at the configured
  key. With the key \<^verbatim>\<open>Name\<close>, a document that has a \<^verbatim>\<open>Name\<close> and no \<^verbatim>\<open>id\<close> is
  refused with \<^verbatim>\<open>Node is undefined\<close>, before any call; and a document that has an
  \<^verbatim>\<open>id\<close> and no \<^verbatim>\<open>Name\<close> is accepted, its \<^verbatim>\<open>id\<close> being the node of the call.
\<close>

theorem C4_counterexample:
  "key bookOptions = Str ''Name''
   \<and> getField ([\<lparr>own = [(''Name'', Str ''Elantris''), (''Genre'', Str ''Fantasy'')],
          proto = ObjectPrototype\<rparr>] ! 0) ''Name''
       = Str ''Elantris''
   \<and> documentUpdate bookOptions
        [\<lparr>own = [(''Name'', Str ''Elantris''), (''Genre'', Str ''Fantasy'')],
          proto = ObjectPrototype\<rparr>] 0
        [\<lparr>own = [(''Name'', Str ''Elantris''), (''Genre'', Str ''Fantasy'')],
          proto = ObjectPrototype\<rparr>]
       = ([], Inl (Error ''Node is undefined''))
   \<and> getField ([\<lparr>own = [(''id'', Str ''cuix''), (''Genre'', Str ''Fantasy'')],
          proto = ObjectPrototype\<rparr>] ! 0) ''Name'' = Undefined
   \<and> fst (documentUpdate bookOptions
        [\<lparr>own = [(''id'', Str ''cuix''), (''Genre'', Str ''Fantasy'')],
          proto = ObjectPrototype\<rparr>] 0
        [\<lparr>own = [(''id'', Str ''cuix''), (''Genre'', Str ''Fantasy'')],
          proto = ObjectPrototype\<rparr>])
       = [createProperty (Str ''cuit'') ''Genre'' (Str ''cuix'') (Str ''Fantasy'') (Num 4)]"
  by code_simp

text \<open>
  C4, amended. Document Update fails with \<^verbatim>\<open>Node is undefined\<close> exactly when the
  \<^verbatim>\<open>id\<close> of the document is \<^verbatim>\<open>undefined\<close>, and it throws nothing else; the \<^verbatim>\<open>id\<close>
  of the document is the node of every \<^verbatim>\<open>createProperty\<close> and \<^verbatim>\<open>createEdge\<close> call
  made for it. The configured key only has to be defined: any other defined key
  configures the same update function.
\<close>

theorem C4_node_is_the_id_of_the_document:
  assumes "create opts = Inr f"
  shows
    "(snd (f h doc h') = Inl (Error ''Node is undefined'') \<longleftrightarrow>
        getField (h ! doc) ''id'' = Undefined)
     \<and> ((\<exists>e. snd (f h doc h') = Inl e) \<longleftrightarrow> getField (h ! doc) ''id'' = Undefined)
     \<and> (\<forall>c \<in> set (fst (f h doc h')). callNode c = getField (h ! doc) ''id'')
     \<and> (\<forall>k. k \<noteq> Undefined \<longrightarrow> create (opts\<lparr>key := k\<rparr>) = Inr f)"
proof -
  from create_Inr [OF assms] obtain drv where
    d: "db opts = Some drv" and t: "type opts \<noteq> Undefined" and
    m: "maxGSIK opts \<noteq> Undefined" and
    f: "f = update drv (tenant opts) (maxGSIK opts)
              (orEmpty (properties opts)) (orEmpty (edges opts))"
    by blast
  have a: "snd (f h doc h') = Inl (Error ''Node is undefined'') \<longleftrightarrow>
        getField (h ! doc) ''id'' = Undefined"
    unfolding f by (cases "getField (h ! doc) ''id'' = Undefined")
      (simp_all add: update_throws update_returns)
  have b: "(\<exists>e. snd (f h doc h') = Inl e) \<longleftrightarrow> getField (h ! doc) ''id'' = Undefined"
    unfolding f by (cases "getField (h ! doc) ''id'' = Undefined")
      (simp_all add: update_throws update_returns)
  have c: "callNode c = getField (h ! doc) ''id''" if "c \<in> set (fst (f h doc h'))" for c
  proof (cases "getField (h ! doc) ''id'' = Undefined")
    case True
    with that show ?thesis unfolding f by (simp add: update_throws)
  next
    case False
    from that show ?thesis
      unfolding f update_calls [OF False] by (rule callNode_calls)
  qed
  have e: "create (opts\<lparr>key := k\<rparr>) = Inr f" if "k \<noteq> Undefined" for k
    using that d t m by (simp add: create_def f)
  from a b c e show ?thesis by blast
qed


text \<open>On the example: both calls are bound to \<^verbatim>\<open>cuix\<close>, whatever the key is called.\<close>

theorem C4_witness:
  "snd (update bookDriver (Str ''cuit'') (Num 4) [''Genre''] [''Author'', ''Likes[]'']
          bookStore 0 bookStore) \<noteq> Inl (Error ''Node is undefined'')
   \<and> map callNode
       (fst (update bookDriver (Str ''cuit'') (Num 4) [''Genre''] [''Author'', ''Likes[]'']
          bookStore 0 bookStore)) = [Str ''cuix'', Str ''cuix'']
   \<and> create (bookOptions\<lparr>key := Str ''Title''\<rparr>) =
       Inr (update bookDriver (Str ''cuit'') (Num 4) [''Genre''] [''Author'', ''Likes[]''])"
proof -
  have n: "getField (bookStore ! 0) ''id'' = Str ''cuix''"
    by (simp add: book_fields)
  from C4_node_is_the_id_of_the_document [OF book_create, of bookStore 0 bookStore]
  show ?thesis
    by (simp add: n book_update)
qed

text \<open>
  C5. Configuration throws exactly when \<open>db\<close>, \<open>type\<close>, \<open>key\<close> or \<open>maxGSIK\<close> is
  \<^verbatim>\<open>undefined\<close>, and returns an update function exactly when all four are defined. The
  error thrown names an input that is missing: the first one, in the order \<open>db\<close>,
  \<open>type\<close>, \<open>key\<close>, \<open>maxGSIK\<close>.
\<close>

theorem C5_configuration_fails_iff_a_required_input_is_undefined:
  "((\<exists>e. create opts = Inl e) \<longleftrightarrow>
      (db opts = None \<or> type opts = Undefined \<or> key opts = Undefined \<or>
       maxGSIK opts = Undefined))
   \<and> ((\<exists>f. create opts = Inr f) \<longleftrightarrow>
      (db opts \<noteq> None \<and> type opts \<noteq> Undefined \<and> key opts \<noteq> Undefined \<and>
       maxGSIK opts \<noteq> Undefined))
   \<and> (\<forall>e. create opts = Inl e \<longrightarrow>
         (e = Error ''DB driver is undefined'' \<and> db opts = None) \<or>
         (e = Error ''Type is undefined'' \<and> type opts = Undefined) \<or>
         (e = Error ''Key is undefined'' \<and> key opts = Undefined) \<or>
         (e = Error ''Max GSIK is undefined'' \<and> maxGSIK opts = Undefined))
   \<and> (db opts = None \<longrightarrow> create opts = Inl (Error ''DB driver is undefined''))
   \<and> (db opts \<noteq> None \<and> type opts = Undefined \<longrightarrow>
         create opts = Inl (Error ''Type is undefined''))
   \<and> (db opts \<noteq> None \<and> type opts \<noteq> Undefined \<and> key opts = Undefined \<longrightarrow>
         create opts = Inl (Error ''Key is undefined''))
   \<and> (db opts \<noteq> None \<and> type opts \<noteq> Undefined \<and> key opts \<noteq> Undefined \<and>
       maxGSIK opts = Undefined \<longrightarrow>
         create opts = Inl (Error ''Max GSIK is undefined''))"
proof -
  have a: "(\<exists>e. create opts = Inl e) \<longleftrightarrow>
      (db opts = None \<or> type opts = Undefined \<or> key opts = Undefined \<or>
       maxGSIK opts = Undefined)"
    unfolding create_cases by simp
  have b: "(\<exists>f. create opts = Inr f) \<longleftrightarrow>
      (db opts \<noteq> None \<and> type opts \<noteq> Undefined \<and> key opts \<noteq> Undefined \<and>
       maxGSIK opts \<noteq> Undefined)"
    unfolding create_cases by simp
  have c: "(e = Error ''DB driver is undefined'' \<and> db opts = None) \<or>
         (e = Error ''Type is undefined'' \<and> type opts = Undefined) \<or>
         (e = Error ''Key is undefined'' \<and> key opts = Undefined) \<or>
         (e = Error ''Max GSIK is undefined'' \<and> maxGSIK opts = Undefined)"
    if "create opts = Inl e" for e
    using that unfolding create_cases by (simp split: if_splits)
  have d: "db opts = None \<longrightarrow> create opts = Inl (Error ''DB driver is undefined'')"
    unfolding create_cases by simp
  have e: "db opts \<noteq> None \<and> type opts = Undefined \<longrightarrow>
         create opts = Inl (Error ''Type is undefined'')"
    unfolding create_cases by simp
  have f: "db opts \<noteq> None \<and> type opts \<noteq> Undefined \<and> key opts = Undefined \<longrightarrow>
         create opts = Inl (Error ''Key is undefined'')"
    unfolding create_cases by simp
  have g: "db opts \<noteq> None \<and> type opts \<noteq> Undefined \<and> key opts \<noteq> Undefined \<and>
       maxGSIK opts = Undefined \<longrightarrow>
         create opts = Inl (Error ''Max GSIK is undefined'')"
    unfolding create_cases by simp
  from c have c': "\<forall>e. create opts = Inl e \<longrightarrow>
         (e = Error ''DB driver is undefined'' \<and> db opts = None) \<or>
         (e = Error ''Type is undefined'' \<and> type opts = Undefined) \<or>
         (e = Error ''Key is undefined'' \<and> key opts = Undefined) \<or>
         (e = Error ''Max GSIK is undefined'' \<and> maxGSIK opts = Undefined)"
    by (intro allI impI)
  show ?thesis
    by (intro conjI a b c' d e f g)
qed


text \<open>On the example: without its key the configuration is refused, with it accepted.\<close>

theorem C5_witness:
  "create (bookOptions\<lparr>key := Undefined\<rparr>) = Inl (Error ''Key is undefined'')
   \<and> (\<exists>f. create bookOptions = Inr f)"
proof -
  have k: "db (bookOptions\<lparr>key := Undefined\<rparr>) \<noteq> None \<and>
           type (bookOptions\<lparr>key := Undefined\<rparr>) \<noteq> Undefined \<and>
           key (bookOptions\<lparr>key := Undefined\<rparr>) = Undefined"
    by (simp add: bookOptions_def)
  have b: "db bookOptions \<noteq> None \<and> type bookOptions \<noteq> Undefined \<and>
           key bookOptions \<noteq> Undefined \<and> maxGSIK bookOptions \<noteq> Undefined"
    by (simp add: bookOptions_def)
  from C5_configuration_fails_iff_a_required_input_is_undefined
         [of "bookOptions\<lparr>key := Undefined\<rparr>"] k
  have 1: "create (bookOptions\<lparr>key := Undefined\<rparr>) = Inl (Error ''Key is undefined'')"
    by blast
  from C5_configuration_fails_iff_a_required_input_is_undefined [of bookOptions] b
  have 2: "\<exists>f. create bookOptions = Inr f"
    by blast
  from 1 2 show ?thesis ..
qed


text \<open>
  C6. Each validation failure of Document Update (an undefined \<open>db\<close>, \<open>type\<close>, \<open>key\<close>
  or \<open>maxGSIK\<close> at configuration, a document without \<^verbatim>\<open>id\<close> at the update) is thrown,
  not returned as a rejected promise, and nothing has been called on the driver then.
  Conversely, whatever Document Update throws is one of these five errors, for one
  of these five reasons, with no call made.
\<close>

theorem C6_validation_fails_before_any_call:
  "((db opts = None \<or> type opts = Undefined \<or> key opts = Undefined \<or>
     maxGSIK opts = Undefined \<or> getField (h ! doc) ''id'' = Undefined) \<longrightarrow>
      (\<exists>e. documentUpdate opts h doc h' = ([], Inl e)))
   \<and> (\<forall>e. snd (documentUpdate opts h doc h') = Inl e \<longrightarrow>
         fst (documentUpdate opts h doc h') = [] \<and>
         e \<in> {Error ''DB driver is undefined'', Error ''Type is undefined'',
              Error ''Key is undefined'', Error ''Max GSIK is undefined'',
              Error ''Node is undefined''} \<and>
         (db opts = None \<or> type opts = Undefined \<or> key opts = Undefined \<or>
          maxGSIK opts = Undefined \<or> getField (h ! doc) ''id'' = Undefined))"
proof -
  have a: "\<exists>e. documentUpdate opts h doc h' = ([], Inl e)"
    if "db opts = None \<or> type opts = Undefined \<or> key opts = Undefined \<or>
        maxGSIK opts = Undefined \<or> getField (h ! doc) ''id'' = Undefined"
    using that
    by (auto simp: documentUpdate_def create_def update_throws split: option.splits)
  have b: "fst (documentUpdate opts h doc h') = [] \<and>
         e \<in> {Error ''DB driver is undefined'', Error ''Type is undefined'',
              Error ''Key is undefined'', Error ''Max GSIK is undefined'',
              Error ''Node is undefined''} \<and>
         (db opts = None \<or> type opts = Undefined \<or> key opts = Undefined \<or>
          maxGSIK opts = Undefined \<or> getField (h ! doc) ''id'' = Undefined)"
    if "snd (documentUpdate opts h doc h') = Inl e" for e
  proof (cases "getField (h ! doc) ''id'' = Undefined")
    case True
    with that show ?thesis
      by (auto simp: documentUpdate_def create_def update_throws split: option.splits if_splits)
  next
    case False
    with that show ?thesis
      by (auto simp: documentUpdate_def create_def update_returns
            split: option.splits if_splits)
  qed
  from a b show ?thesis by blast
qed


text \<open>On the example: a document without \<^verbatim>\<open>id\<close>, and a configuration without maxGSIK.\<close>

theorem C6_witness:
  "documentUpdate bookOptions [\<lparr>own = [(''Name'', Str ''Elantris'')], proto = ObjectPrototype\<rparr>] 0
     [\<lparr>own = [(''Name'', Str ''Elantris'')], proto = ObjectPrototype\<rparr>]
     = ([], Inl (Error ''Node is undefined''))
   \<and> documentUpdate (bookOptions\<lparr>maxGSIK := Undefined\<rparr>) bookStore 0 bookStore
     = ([], Inl (Error ''Max GSIK is undefined''))"
proof -
  let ?noid = "[\<lparr>own = [(''Name'', Str ''Elantris'')], proto = ObjectPrototype\<rparr>]"
  have n: "getField (?noid ! 0) ''id'' = Undefined"
    by (simp add: getField_def inherited_def objectPrototypeMember_def)
  have m: "maxGSIK (bookOptions\<lparr>maxGSIK := Undefined\<rparr>) = Undefined"
    by simp
  have x: "snd (documentUpdate bookOptions ?noid 0 ?noid) = Inl (Error ''Node is undefined'')"
    by (simp only: documentUpdate_def book_create sum.case update_throws [OF n] snd_conv)
  have y: "snd (documentUpdate (bookOptions\<lparr>maxGSIK := Undefined\<rparr>) bookStore 0 bookStore)
             = Inl (Error ''Max GSIK is undefined'')"
    by (simp add: documentUpdate_def create_def bookOptions_def)
  from C6_validation_fails_before_any_call [of bookOptions ?noid 0 ?noid] x
  have 1: "documentUpdate bookOptions ?noid 0 ?noid = ([], Inl (Error ''Node is undefined''))"
    by (metis prod.collapse)
  from C6_validation_fails_before_any_call
         [of "bookOptions\<lparr>maxGSIK := Undefined\<rparr>" bookStore 0 bookStore] y
  have 2: "documentUpdate (bookOptions\<lparr>maxGSIK := Undefined\<rparr>) bookStore 0 bookStore
     = ([], Inl (Error ''Max GSIK is undefined''))"
    by (metis prod.collapse)
  from 1 2 show ?thesis ..
qed

text \<open>
  C7, as the claim states it, fails in two ways. When two calls are rejected, the promise
  of Document Update is rejected with the error of the first rejection only: with the
  failing driver the \<^verbatim>\<open>createEdge\<close> call for the author is rejected with
  \<^verbatim>\<open>unavailable\<close>, and the update is rejected with \<^verbatim>\<open>throttled\<close>, the error of the
  earlier rejection. And the error may be that of the handler of line 124: with the
  driver of empty responses the \<^verbatim>\<open>createProperty\<close> call is rejected with
  \<^verbatim>\<open>unavailable\<close> at time 2, and the update is rejected at time 1 with the
  \<open>TypeError\<close> that reading \<^verbatim>\<open>Item.Data\<close> of the edge's response throws.
\<close>

theorem C7_counterexample:
  "createEdge (Str ''cuit'') ''Author'' (Str ''cuix'') (Str ''cuiv'') (Num 4)
     \<in> set (fst (documentUpdate (bookOptions\<lparr>db := Some failingDriver\<rparr>) bookStore 0 bookStore))
   \<and> failingDriver (createEdge (Str ''cuit'') ''Author'' (Str ''cuix'') (Str ''cuiv'') (Num 4))
       = Some (2, Rejected (Error ''unavailable''))
   \<and> snd (documentUpdate (bookOptions\<lparr>db := Some failingDriver\<rparr>) bookStore 0 bookStore)
       = Inr (Some (1, Rejected (Error ''throttled'')))
   \<and> createProperty (Str ''cuit'') ''Genre'' (Str ''cuix'') (Str ''Fantasy'') (Num 4)
       \<in> set (fst (documentUpdate (bookOptions\<lparr>db := Some emptyResponseDriver\<rparr>)
                      bookStore 0 bookStore))
   \<and> emptyResponseDriver
        (createProperty (Str ''cuit'') ''Genre'' (Str ''cuix'') (Str ''Fantasy'') (Num 4))
       = Some (2, Rejected (Error ''unavailable''))
   \<and> emptyResponseDriver
        (createEdge (Str ''cuit'') ''Author'' (Str ''cuix'') (Str ''cuiv'') (Num 4))
       = Some (1, Fulfilled (Obj []))
   \<and> snd (documentUpdate (bookOptions\<lparr>db := Some emptyResponseDriver\<rparr>) bookStore 0 bookStore)
       = Inr (Some (1, Rejected TypeError))"
  by code_simp

text \<open>
  C7, amended. A write of Document Update fails when its call is rejected, or when it is
  a \<^verbatim>\<open>createEdge\<close> call fulfilled with a response that has no \<^verbatim>\<open>Item\<close> (none, or
  \<^verbatim>\<open>undefined\<close>, or \<^verbatim>\<open>null\<close>), which makes the handler throw a \<open>TypeError\<close>. If a
  \<^verbatim>\<open>createProperty\<close> or \<^verbatim>\<open>createEdge\<close> call made by Document Update is rejected, the
  promise returned by Document Update is rejected, with the error of a write that fails
  first, as that write gave it: no write fails earlier, be it by a rejection or by the
  handler. It is the error of the given call whenever every other failure comes later. The
  number of calls made is the number of listed names present in the document, whatever
  the driver answers: nothing is tried again.
\<close>

theorem C7_first_failure_rejects_the_update:
  assumes "create opts = Inr f"
    and "db opts = Some drv"
    and "c \<in> set (fst (f h doc h'))"
    and "drv c = Some (t, Rejected e)"
  shows
    "(\<exists>t' e'. snd (f h doc h') = Inr (Some (t', Rejected e')) \<and> t' \<le> t \<and>
        (\<exists>c' \<in> set (fst (f h doc h')).
           drv c' = Some (t', Rejected e') \<or>
           (isEdge c' \<and> e' = TypeError \<and>
            (\<exists>response. drv c' = Some (t', Fulfilled response) \<and>
               (\<forall>resp item. response = Obj resp \<and> map_of resp ''Item'' = Some item \<longrightarrow>
                   item = Undefined \<or> item = Null)))) \<and>
        (\<forall>c' \<in> set (fst (f h doc h')). \<forall>t'' x.
           drv c' = Some (t'', Rejected x) \<longrightarrow> t' \<le> t'') \<and>
        (\<forall>c' \<in> set (fst (f h doc h')). \<forall>t'' response.
           isEdge c' \<and> drv c' = Some (t'', Fulfilled response) \<and>
           (\<forall>resp item. response = Obj resp \<and> map_of resp ''Item'' = Some item \<longrightarrow>
                   item = Undefined \<or> item = Null)
           \<longrightarrow> t' \<le> t''))
     \<and> ((\<forall>c' \<in> set (fst (f h doc h')). \<forall>t' x.
            drv c' = Some (t', Rejected x) \<or>
            (isEdge c' \<and> x = TypeError \<and>
             (\<exists>response. drv c' = Some (t', Fulfilled response) \<and>
                (\<forall>resp item. response = Obj resp \<and> map_of resp ''Item'' = Some item \<longrightarrow>
                   item = Undefined \<or> item = Null)))
            \<longrightarrow> t < t' \<or> (t' = t \<and> x = e))
         \<longrightarrow> snd (f h doc h') = Inr (Some (t, Rejected e)))
     \<and> length (fst (f h doc h')) =
         length (filter (\<lambda>p. getField (h ! doc) p \<noteq> Undefined) (orEmpty (properties opts))) +
         length (filter (\<lambda>e. getField (h ! doc) e \<noteq> Undefined) (orEmpty (edges opts)))"
proof -
  let ?nd = "getField (h ! doc) ''id''"
  let ?w = "writes drv (tenant opts) (maxGSIK opts) (orEmpty (properties opts))
              (orEmpty (edges opts)) ?nd (h ! doc)"
  from create_Inr [OF assms(1)] assms(2) have
    f: "f = update drv (tenant opts) (maxGSIK opts)
              (orEmpty (properties opts)) (orEmpty (edges opts))"
    by auto
  have n: "?nd \<noteq> Undefined"
    using assms(3) unfolding f by (auto simp: update_throws)
  have calls: "fst (f h doc h') = fst ?w"
    unfolding f by (rule update_writes [OF n])
  have rej: "snd (f h doc h') = Inr (Some (t', Rejected e')) \<longleftrightarrow>
             firstRejection (fst (snd ?w)) = Some (t', e')" for t' e'
    unfolding f by (rule update_Rejected_iff [OF n])
  from assms(3) have cw: "c \<in> set (fst ?w)"
    by (simp only: calls)
  have mem: "Some (t, Rejected e) \<in> set (fst (snd ?w))"
    by (rule rejected_call_in_promises [OF cw assms(4)])
  then have "firstRejection (fst (snd ?w)) \<noteq> None"
    by (auto simp: firstRejection_None_iff)
  then obtain t' e' where fr: "firstRejection (fst (snd ?w)) = Some (t', e')"
    by auto
  have le: "t' \<le> t"
    by (rule firstRejection_Some_least [OF fr mem])
  from rejection_in_promises_is_a_write [OF firstRejection_Some_mem [OF fr]]
  have src: "\<exists>c' \<in> set (fst (f h doc h')).
           drv c' = Some (t', Rejected e') \<or>
           (isEdge c' \<and> e' = TypeError \<and>
            (\<exists>response. drv c' = Some (t', Fulfilled response) \<and>
               (\<forall>resp item. response = Obj resp \<and> map_of resp ''Item'' = Some item \<longrightarrow>
                   item = Undefined \<or> item = Null)))"
    unfolding responseData_Inl_iff by (simp only: calls simp_thms)
  have first_rej: "t' \<le> t''"
    if "c' \<in> set (fst (f h doc h'))" and "drv c' = Some (t'', Rejected x)" for c' t'' x
  proof -
    from that(1) have "c' \<in> set (fst ?w)" by (simp only: calls)
    from rejected_call_in_promises [OF this that(2)]
    show ?thesis by (rule firstRejection_Some_least [OF fr])
  qed
  have first_thrown: "t' \<le> t''"
    if "c' \<in> set (fst (f h doc h'))" and "isEdge c'"
      and "drv c' = Some (t'', Fulfilled response)"
      and "(\<forall>resp item. response = Obj resp \<and> map_of resp ''Item'' = Some item \<longrightarrow>
                   item = Undefined \<or> item = Null)"
    for c' t'' response
  proof -
    from that(1) have "c' \<in> set (fst ?w)" by (simp only: calls)
    moreover from that(4) have "responseData response = Inl TypeError"
      unfolding responseData_Inl_iff by blast
    ultimately have "Some (t'', Rejected TypeError) \<in> set (fst (snd ?w))"
      using that(2,3) by (rule thrown_handler_in_promises)
    then show ?thesis by (rule firstRejection_Some_least [OF fr])
  qed
  have a: "\<exists>t' e'. snd (f h doc h') = Inr (Some (t', Rejected e')) \<and> t' \<le> t \<and>
        (\<exists>c' \<in> set (fst (f h doc h')).
           drv c' = Some (t', Rejected e') \<or>
           (isEdge c' \<and> e' = TypeError \<and>
            (\<exists>response. drv c' = Some (t', Fulfilled response) \<and>
               (\<forall>resp item. response = Obj resp \<and> map_of resp ''Item'' = Some item \<longrightarrow>
                   item = Undefined \<or> item = Null)))) \<and>
        (\<forall>c' \<in> set (fst (f h doc h')). \<forall>t'' x.
           drv c' = Some (t'', Rejected x) \<longrightarrow> t' \<le> t'') \<and>
        (\<forall>c' \<in> set (fst (f h doc h')). \<forall>t'' response.
           isEdge c' \<and> drv c' = Some (t'', Fulfilled response) \<and>
           (\<forall>resp item. response = Obj resp \<and> map_of resp ''Item'' = Some item \<longrightarrow>
                   item = Undefined \<or> item = Null)
           \<longrightarrow> t' \<le> t'')"
  proof (intro exI [of _ t'] exI [of _ e'] conjI ballI allI impI)
    show "snd (f h doc h') = Inr (Some (t', Rejected e'))"
      using rej [of t' e'] fr by simp
    show "t' \<le> t" by (rule le)
    show "\<exists>c' \<in> set (fst (f h doc h')).
           drv c' = Some (t', Rejected e') \<or>
           (isEdge c' \<and> e' = TypeError \<and>
            (\<exists>response. drv c' = Some (t', Fulfilled response) \<and>
               (\<forall>resp item. response = Obj resp \<and> map_of resp ''Item'' = Some item \<longrightarrow>
                   item = Undefined \<or> item = Null)))"
      by (rule src)
  next
    fix c' t'' x
    assume "c' \<in> set (fst (f h doc h'))" and "drv c' = Some (t'', Rejected x)"
    then show "t' \<le> t''" by (rule first_rej)
  next
    fix c' t'' response
    assume "c' \<in> set (fst (f h doc h'))"
      and "isEdge c' \<and> drv c' = Some (t'', Fulfilled response) \<and>
           (\<forall>resp item. response = Obj resp \<and> map_of resp ''Item'' = Some item \<longrightarrow>
                   item = Undefined \<or> item = Null)"
    then show "t' \<le> t''" using first_thrown by blast
  qed
  have b: "snd (f h doc h') = Inr (Some (t, Rejected e))"
    if first: "\<forall>c' \<in> set (fst (f h doc h')). \<forall>t' x.
            drv c' = Some (t', Rejected x) \<or>
            (isEdge c' \<and> x = TypeError \<and>
             (\<exists>response. drv c' = Some (t', Fulfilled response) \<and>
                (\<forall>resp item. response = Obj resp \<and> map_of resp ''Item'' = Some item \<longrightarrow>
                   item = Undefined \<or> item = Null)))
            \<longrightarrow> t < t' \<or> (t' = t \<and> x = e)"
  proof -
    from src first have "t < t' \<or> (t' = t \<and> e' = e)"
      by blast
    with le have "t' = t \<and> e' = e" by simp
    with rej [of t' e'] fr show ?thesis by simp
  qed
  have c: "length (fst (f h doc h')) =
         length (filter (\<lambda>p. getField (h ! doc) p \<noteq> Undefined) (orEmpty (properties opts))) +
         length (filter (\<lambda>e. getField (h ! doc) e \<noteq> Undefined) (orEmpty (edges opts)))"
    unfolding calls by (simp add: writes_eq)
  from a b c show ?thesis by blast
qed

text \<open>
  On the example, with the driver of empty responses: the \<^verbatim>\<open>createProperty\<close> call is
  rejected at time 2, the handler of the edge throws at time 1, and so the update is
  rejected at time 1 with the \<open>TypeError\<close>.
\<close>

theorem C7_witness:
  "snd (update emptyResponseDriver (Str ''cuit'') (Num 4) [''Genre''] [''Author'', ''Likes[]'']
          bookStore 0 bookStore) = Inr (Some (1, Rejected TypeError))"
proof -
  let ?p = "createProperty (Str ''cuit'') ''Genre'' (Str ''cuix'') (Str ''Fantasy'') (Num 4)"
  let ?e = "createEdge (Str ''cuit'') ''Author'' (Str ''cuix'') (Str ''cuiv'') (Num 4)"
  let ?u = "update emptyResponseDriver (Str ''cuit'') (Num 4) [''Genre'']
              [''Author'', ''Likes[]''] bookStore 0 bookStore"
  have cr: "create (bookOptions\<lparr>db := Some emptyResponseDriver\<rparr>) =
      Inr (update emptyResponseDriver (Str ''cuit'') (Num 4) [''Genre''] [''Author'', ''Likes[]''])"
    by (simp add: create_def bookOptions_def orEmpty_def)
  have d: "db (bookOptions\<lparr>db := Some emptyResponseDriver\<rparr>) = Some emptyResponseDriver"
    by simp
  have calls: "fst ?u = [?p, ?e]"
    by (rule book_calls)
  have m: "?p \<in> set (fst ?u)"
    by (simp add: calls)
  have rp: "emptyResponseDriver ?p = Some (2, Rejected (Error ''unavailable''))"
    by (simp add: emptyResponseDriver_def)
  have re: "emptyResponseDriver ?e = Some (1, Fulfilled (Obj []))"
    by (simp add: emptyResponseDriver_def)
  from C7_first_failure_rejects_the_update [OF cr d m rp] obtain t' e' where
    r: "snd ?u = Inr (Some (t', Rejected e'))" and
    src: "\<exists>c' \<in> set (fst ?u).
           emptyResponseDriver c' = Some (t', Rejected e') \<or>
           (isEdge c' \<and> e' = TypeError \<and>
            (\<exists>response. emptyResponseDriver c' = Some (t', Fulfilled response) \<and>
               (\<forall>resp item. response = Obj resp \<and> map_of resp ''Item'' = Some item \<longrightarrow>
                   item = Undefined \<or> item = Null)))" and
    thrown: "\<forall>c' \<in> set (fst ?u). \<forall>t'' response.
           isEdge c' \<and> emptyResponseDriver c' = Some (t'', Fulfilled response) \<and>
           (\<forall>resp item. response = Obj resp \<and> map_of resp ''Item'' = Some item \<longrightarrow>
                   item = Undefined \<or> item = Null)
           \<longrightarrow> t' \<le> t''"
    by blast
  have "isEdge ?e \<and> emptyResponseDriver ?e = Some (1, Fulfilled (Obj [])) \<and>
        (\<forall>resp item. Obj [] = Obj resp \<and> map_of resp ''Item'' = Some item \<longrightarrow>
           item = Undefined \<or> item = Null)"
    by (simp add: re)
  moreover have "?e \<in> set (fst ?u)" by (simp add: calls)
  ultimately have le: "t' \<le> 1" using thrown by blast
  from src le have "t' = 1 \<and> e' = TypeError"
    by (auto simp: calls rp re)
  with r show ?thesis by simp
qed

text \<open>
  C8. The calls that Document Update makes do not depend on what the driver answers (nor
  on the store at completion): with any other driver the same calls are made, so no
  write waits for another. And when the promise returned is fulfilled, at time \<open>T\<close>,
  every call made has been fulfilled, at \<open>T\<close> or before; \<open>T\<close> is the time of the last
  fulfilment (time 0 when no call was made).
\<close>

theorem C8_writes_issued_together_and_awaited_together:
  assumes "create opts = Inr f"
    and "db opts = Some drv"
  shows
    "(\<forall>drv' g h''. create (opts\<lparr>db := Some drv'\<rparr>) = Inr g \<longrightarrow>
        fst (g h doc h'') = fst (f h doc h'))
     \<and> (\<forall>T res. snd (f h doc h') = Inr (Some (T, Fulfilled res)) \<longrightarrow>
          (\<forall>c \<in> set (fst (f h doc h')). \<exists>t v. drv c = Some (t, Fulfilled v) \<and> t \<le> T) \<and>
          (T = 0 \<or> (\<exists>c \<in> set (fst (f h doc h')). \<exists>v. drv c = Some (T, Fulfilled v))))"
proof -
  let ?nd = "getField (h ! doc) ''id''"
  let ?w = "writes drv (tenant opts) (maxGSIK opts) (orEmpty (properties opts))
              (orEmpty (edges opts)) ?nd (h ! doc)"
  from create_Inr [OF assms(1)] assms(2) have
    f: "f = update drv (tenant opts) (maxGSIK opts)
              (orEmpty (properties opts)) (orEmpty (edges opts))"
    by auto
  have a: "fst (g h doc h'') = fst (f h doc h')"
    if "create (opts\<lparr>db := Some drv'\<rparr>) = Inr g" for drv' g h''
  proof -
    from create_Inr [OF that] have
      g: "g = update drv' (tenant opts) (maxGSIK opts)
              (orEmpty (properties opts)) (orEmpty (edges opts))"
      by auto
    show ?thesis
      unfolding f g
      by (cases "?nd = Undefined") (simp_all add: update_throws update_calls)
  qed
  have b: "(\<forall>c \<in> set (fst (f h doc h')). \<exists>t v. drv c = Some (t, Fulfilled v) \<and> t \<le> T) \<and>
          (T = 0 \<or> (\<exists>c \<in> set (fst (f h doc h')). \<exists>v. drv c = Some (T, Fulfilled v)))"
    if "snd (f h doc h') = Inr (Some (T, Fulfilled res))" for T res
  proof -
    from update_Fulfilled [OF that [unfolded f]] obtain vs where
      n: "?nd \<noteq> Undefined" and ful: "fulfilledAll (fst (snd ?w)) = Some (T, vs)"
      by blast
    have calls: "fst (f h doc h') = fst ?w"
      unfolding f by (rule update_writes [OF n])
    have 1: "\<exists>t v. drv c = Some (t, Fulfilled v) \<and> t \<le> T" if "c \<in> set (fst (f h doc h'))" for c
      using that writes_fulfilled [OF ful] unfolding calls
      by (auto simp: writes_eq)
    from fulfilledAll_time [OF ful] have "T = 0 \<or> (\<exists>c \<in> set (fst ?w). \<exists>v. drv c = Some (T, Fulfilled v))"
      using fulfilled_promise_is_a_write by blast
    then have 2: "T = 0 \<or> (\<exists>c \<in> set (fst (f h doc h')). \<exists>v. drv c = Some (T, Fulfilled v))"
      by (simp only: calls)
    from 1 2 show ?thesis by blast
  qed
  from a b show ?thesis by blast
qed


text \<open>
  On the example: the failing driver receives the calls that the good one receives, and
  the update with the good driver is fulfilled at time 2, after the genre was written.
\<close>

theorem C8_witness:
  "fst (update failingDriver (Str ''cuit'') (Num 4) [''Genre''] [''Author'', ''Likes[]'']
          bookStore 0 bookStore) =
   fst (update bookDriver (Str ''cuit'') (Num 4) [''Genre''] [''Author'', ''Likes[]'']
          bookStore 0 bookStore)
   \<and> (\<exists>res. snd (update bookDriver (Str ''cuit'') (Num 4) [''Genre''] [''Author'', ''Likes[]'']
          bookStore 0 bookStore) = Inr (Some (2, Fulfilled res)))
   \<and> (\<exists>t v. bookDriver (createProperty (Str ''cuit'') ''Genre'' (Str ''cuix'') (Str ''Fantasy'')
         (Num 4)) = Some (t, Fulfilled v) \<and> t \<le> 2)"
proof -
  have d: "db bookOptions = Some bookDriver"
    by (simp add: bookOptions_def)
  have o: "bookOptions\<lparr>db := Some failingDriver\<rparr> = bookOptions\<lparr>db := Some failingDriver\<rparr>" ..
  note C8 = C8_writes_issued_together_and_awaited_together
              [OF book_create d, of bookStore 0 bookStore]
  from C8 failing_create have 1:
    "fst (update failingDriver (Str ''cuit'') (Num 4) [''Genre''] [''Author'', ''Likes[]'']
          bookStore 0 bookStore) =
     fst (update bookDriver (Str ''cuit'') (Num 4) [''Genre''] [''Author'', ''Likes[]'']
          bookStore 0 bookStore)"
    by blast
  have 2: "snd (update bookDriver (Str ''cuit'') (Num 4) [''Genre''] [''Author'', ''Likes[]'']
          bookStore 0 bookStore) = Inr (Some (2, Fulfilled (merged bookStore 0 (Str ''cuix'')
      [\<lparr>etype = ''Author'', target = Str ''cuiv'', data = Str ''Brandon Sanderson''\<rparr>])))"
    by (simp add: book_update)
  have m: "createProperty (Str ''cuit'') ''Genre'' (Str ''cuix'') (Str ''Fantasy'') (Num 4)
     \<in> set (fst (update bookDriver (Str ''cuit'') (Num 4) [''Genre''] [''Author'', ''Likes[]'']
          bookStore 0 bookStore))"
    by (simp add: book_calls)
  from C8 2 m have 3: "\<exists>t v. bookDriver (createProperty (Str ''cuit'') ''Genre'' (Str ''cuix'')
         (Str ''Fantasy'') (Num 4)) = Some (t, Fulfilled v) \<and> t \<le> 2"
    by blast
  from 1 2 3 show ?thesis by blast
qed


text \<open>
  C9. When Document Update is fulfilled, its result is a new object: its address is the
  first one unused in the store in which the handler of line 128 runs, hence not that of
  the document. Every object of that store is afterwards as it was, the document among
  them: each key of the document has the value it had. Before that handler runs the
  update function writes to no object of the store; so, if nothing else has changed the
  document since the call, each of its keys has the value it had before the call.
\<close>

theorem C9_document_untouched_result_new:
  assumes "create opts = Inr f"
    and "doc < length h'"
    and "snd (f h doc h') = Inr (Some (T, Fulfilled (r, hr)))"
  shows "r = length h' \<and> r \<noteq> doc \<and> r < length hr \<and>
         (\<forall>a < length h'. hr ! a = h' ! a) \<and>
         hr ! doc = h' ! doc \<and>
         (\<forall>k. map_of (own (hr ! doc)) k = map_of (own (h' ! doc)) k \<and>
              getField (hr ! doc) k = getField (h' ! doc) k) \<and>
         (h' ! doc = h ! doc \<longrightarrow>
            (\<forall>k. map_of (own (hr ! doc)) k = map_of (own (h ! doc)) k \<and>
                 getField (hr ! doc) k = getField (h ! doc) k))"
proof -
  from create_Inr [OF assms(1)] obtain drv where
    f: "f = update drv (tenant opts) (maxGSIK opts)
              (orEmpty (properties opts)) (orEmpty (edges opts))"
    by blast
  from update_Fulfilled [OF assms(3) [unfolded f]] obtain es where
    res: "(r, hr) = merged h' doc (getField (h ! doc) ''id'') es"
    by blast
  from merged_eq [OF assms(2), of "getField (h ! doc) ''id''" es] res obtain x ext where
    r: "r = length h'" and hr: "hr = h' @ x # ext"
    by auto
  have old: "hr ! a = h' ! a" if "a < length h'" for a
    using that by (simp add: hr nth_append)
  from old [OF assms(2)] have d: "hr ! doc = h' ! doc" .
  from r assms(2) have "r \<noteq> doc" by simp
  moreover have "r < length hr" by (simp add: r hr)
  ultimately show ?thesis using r old d by simp
qed

text \<open>On the example: the result is at address 1, the document at address 0 is unchanged.\<close>

theorem C9_witness:
  "\<exists>T r hr.
     snd (update bookDriver (Str ''cuit'') (Num 4) [''Genre''] [''Author'', ''Likes[]'']
            bookStore 0 bookStore) = Inr (Some (T, Fulfilled (r, hr))) \<and>
     r = 1 \<and> hr ! 0 = bookStore ! 0"
proof -
  let ?res = "merged bookStore 0 (Str ''cuix'')
      [\<lparr>etype = ''Author'', target = Str ''cuiv'', data = Str ''Brandon Sanderson''\<rparr>]"
  have l: "0 < length bookStore"
    by (simp add: bookStore_def)
  have s: "snd (update bookDriver (Str ''cuit'') (Num 4) [''Genre''] [''Author'', ''Likes[]'']
            bookStore 0 bookStore) = Inr (Some (2, Fulfilled (fst ?res, snd ?res)))"
    by (simp add: book_update)
  from C9_document_untouched_result_new [OF book_create l s]
  have m: "fst ?res = 1 \<and> snd ?res ! 0 = bookStore ! 0"
    by (simp add: bookStore_def)
  show ?thesis
    by (rule exI [of _ 2], rule exI [of _ "fst ?res"], rule exI [of _ "snd ?res"])
       (rule conjI [OF s m])
qed


text \<open>
  C10, as the claim states it, fails for a document with an own property \<^verbatim>\<open>__proto__\<close>:
  the result is not the document merged over \<^verbatim>\<open>{id: node}\<close>. The document at address 1
  of the parsed store has \<^verbatim>\<open>__proto__\<close> with an object for value. Configured without
  lists, the update makes no call and is fulfilled at once; its result has the \<^verbatim>\<open>id\<close>
  only, and the object for prototype, so that it answers for \<^verbatim>\<open>isAdmin\<close>, which
  the document does not.
\<close>

theorem C10_counterexample:
  "documentUpdate (bookOptions\<lparr>properties := None, edges := None\<rparr>) parsedStore 1 parsedStore =
     ([], Inr (Some (0, Fulfilled (2,
        parsedStore @ [\<lparr>own = [(''id'', Str ''cuiy'')], proto = Obj [(''isAdmin'', Bool True)]\<rparr>, \<lparr>own = [], proto = ObjectPrototype\<rparr>]))))
   \<and> map_of (own (parsedStore ! 1)) ''__proto__'' = Some (Obj [(''isAdmin'', Bool True)])
   \<and> map_of (own \<lparr>own = [(''id'', Str ''cuiy'')], proto = Obj [(''isAdmin'', Bool True)]\<rparr>) ''__proto__'' = None
   \<and> getField (parsedStore ! 1) ''isAdmin'' = Undefined
   \<and> getField \<lparr>own = [(''id'', Str ''cuiy'')], proto = Obj [(''isAdmin'', Bool True)]\<rparr> ''isAdmin'' = Bool True"
  by code_simp

text \<open>
  C10, amended. A configuration without \<open>properties\<close> and without \<open>edges\<close>, the four
  required inputs being defined, is accepted; its update function, applied to a document
  with an \<^verbatim>\<open>id\<close>, makes no call, and its promise is fulfilled at once with a new object.
  The own properties of that object are those of \<^verbatim>\<open>{id: node}\<close> overwritten by the own
  properties of the document other than \<^verbatim>\<open>__proto__\<close>. An own \<^verbatim>\<open>__proto__\<close> of the
  document is not copied: if its value is an object or \<^verbatim>\<open>null\<close> it becomes the
  prototype of the result, and any other value is dropped.
\<close>

theorem C10_no_lists_no_calls:
  assumes "properties opts = None"
    and "edges opts = None"
    and "db opts \<noteq> None" and "type opts \<noteq> Undefined" and "key opts \<noteq> Undefined"
    and "maxGSIK opts \<noteq> Undefined"
    and "getField (h ! doc) ''id'' \<noteq> Undefined"
    and "doc < length h'"
  shows "\<exists>f hr. create opts = Inr f \<and>
           f h doc h' = ([], Inr (Some (0, Fulfilled (length h', hr)))) \<and>
           map_of (own (hr ! length h')) =
             [''id'' \<mapsto> getField (h ! doc) ''id''] ++
             (map_of (own (h' ! doc)))(''__proto__'' := None) \<and>
           proto (hr ! length h') =
             (case map_of (own (h' ! doc)) ''__proto__'' of
                Some v \<Rightarrow> if isObjectOrNull v then v else ObjectPrototype
              | None \<Rightarrow> ObjectPrototype)"
proof -
  from assms(3) obtain drv where d: "db opts = Some drv" by auto
  let ?f = "update drv (tenant opts) (maxGSIK opts) [] []"
  have c: "create opts = Inr ?f"
    using assms(1-6) d by (simp add: create_def orEmpty_def)
  from merged_eq [OF assms(8), of "getField (h ! doc) ''id''" "[]"] obtain x ext where
    m: "merged h' doc (getField (h ! doc) ''id'') [] = (length h', h' @ x # ext)" and
    ox: "map_of (own x) =
           [''id'' \<mapsto> getField (h ! doc) ''id''] ++
           (map_of (own (h' ! doc)))(''__proto__'' := None)" and
    px: "proto x =
           (case map_of (own (h' ! doc)) ''__proto__'' of
              Some v \<Rightarrow> if isObjectOrNull v then v else ObjectPrototype
            | None \<Rightarrow> ObjectPrototype)"
    by auto
  let ?hr = "h' @ x # ext"
  have u: "?f h doc h' = ([], Inr (Some (0, Fulfilled (length h', ?hr))))"
    by (simp add: update_returns [OF assms(7)] writes_eq Promise_all_def Promise_resolve_def
          then_promise_def m)
  have x: "?hr ! length h' = x"
    by simp
  have o: "map_of (own (?hr ! length h')) =
             [''id'' \<mapsto> getField (h ! doc) ''id''] ++
             (map_of (own (h' ! doc)))(''__proto__'' := None)"
    by (simp only: x ox)
  have p: "proto (?hr ! length h') =
             (case map_of (own (h' ! doc)) ''__proto__'' of
                Some v \<Rightarrow> if isObjectOrNull v then v else ObjectPrototype
              | None \<Rightarrow> ObjectPrototype)"
    by (simp only: x px)
  show ?thesis
    by (rule exI [of _ ?f], rule exI [of _ ?hr]) (intro conjI c u o p)
qed

text \<open>
  On the example, configured without its lists: no call, no \<^verbatim>\<open>@Author\<close>, the
  prototype of a literal.
\<close>

theorem C10_witness:
  "\<exists>f hr. create (bookOptions\<lparr>properties := None, edges := None\<rparr>) = Inr f \<and>
     f bookStore 0 bookStore = ([], Inr (Some (0, Fulfilled (1, hr)))) \<and>
     map (map_of (own (hr ! 1))) [''id'', ''Name'', ''Genre'', ''Author'', ''@Author''] =
       [Some (Str ''cuix''), Some (Str ''Elantris''), Some (Str ''Fantasy''),
        Some (Str ''cuiv''), None] \<and>
     proto (hr ! 1) = ObjectPrototype"
proof -
  let ?o = "bookOptions\<lparr>properties := None, edges := None\<rparr>"
  have 1: "properties ?o = None" "edges ?o = None" by simp_all
  have 2: "db ?o \<noteq> None" "type ?o \<noteq> Undefined" "key ?o \<noteq> Undefined" "maxGSIK ?o \<noteq> Undefined"
    by (simp_all add: bookOptions_def)
  have n: "getField (bookStore ! 0) ''id'' = Str ''cuix''"
    by (simp add: book_fields)
  then have n': "getField (bookStore ! 0) ''id'' \<noteq> Undefined" by simp
  have l: "0 < length bookStore" "length bookStore = 1"
    by (simp_all add: bookStore_def)
  from C10_no_lists_no_calls [OF 1 2 n' l(1)] obtain f hr where
    c: "create ?o = Inr f" and
    u: "f bookStore 0 bookStore = ([], Inr (Some (0, Fulfilled (1, hr))))" and
    v: "map_of (own (hr ! 1)) =
          [''id'' \<mapsto> Str ''cuix''] ++ (map_of (own (bookStore ! 0)))(''__proto__'' := None)" and
    p: "proto (hr ! 1) =
             (case map_of (own (bookStore ! 0)) ''__proto__'' of
                Some v \<Rightarrow> if isObjectOrNull v then v else ObjectPrototype
              | None \<Rightarrow> ObjectPrototype)"
    unfolding l(2) n by blast
  have m: "map (map_of (own (hr ! 1))) [''id'', ''Name'', ''Genre'', ''Author'', ''@Author''] =
       [Some (Str ''cuix''), Some (Str ''Elantris''), Some (Str ''Fantasy''),
        Some (Str ''cuiv''), None]"
    unfolding v by (simp add: bookStore_def map_add_def)
  have q: "proto (hr ! 1) = ObjectPrototype"
    unfolding p by (simp add: bookStore_def)
  show ?thesis
    by (rule exI [of _ f], rule exI [of _ hr]) (intro conjI c u m q)
qed

end
